theory Spec2Isabelle
  imports Complex_Main "HOL-Library.Sublist" "HOL-Library.FSet"
begin

section \<open>Python strings and integers\<close>

text \<open>
  Strings are \<open>char list\<close>s.  The functions below give the behaviour of the Python
  built-ins on ASCII text, which is what URLs, header names and version numbers are
  made of.
\<close>

definition py_lower_char :: "char \<Rightarrow> char" where
  "py_lower_char c =
     (let n = (of_char c :: nat) in if 65 \<le> n \<and> n \<le> 90 then char_of (n + 32) else c)"

definition py_lower :: "string \<Rightarrow> string" where
  "py_lower s = map py_lower_char s"

fun py_split :: "char \<Rightarrow> string \<Rightarrow> string list" where
  "py_split sep [] = [[]]"
| "py_split sep (c # cs) =
     (if c = sep then [] # py_split sep cs
      else (case py_split sep cs of
              [] \<Rightarrow> [[c]]
            | w # ws \<Rightarrow> (c # w) # ws))"

definition is_digit :: "char \<Rightarrow> bool" where
  "is_digit c = (let n = (of_char c :: nat) in 48 \<le> n \<and> n \<le> 57)"

definition digit_val :: "char \<Rightarrow> nat" where
  "digit_val c = (of_char c :: nat) - 48"

definition is_py_space :: "char \<Rightarrow> bool" where
  "is_py_space c = (let n = (of_char c :: nat) in n = 32 \<or> (9 \<le> n \<and> n \<le> 13) \<or> (28 \<le> n \<and> n \<le> 31))"

definition py_strip :: "string \<Rightarrow> string" where
  "py_strip s = rev (dropWhile is_py_space (rev (dropWhile is_py_space s)))"

text \<open>
  The digits of an integer literal as \<open>int()\<close> reads them: decimal digits, with single
  underscores allowed between two digits.
\<close>

fun parse_digits :: "string \<Rightarrow> nat \<Rightarrow> nat option" where
  "parse_digits [] acc = Some acc"
| "parse_digits (c # cs) acc =
     (if is_digit c then parse_digits cs (10 * acc + digit_val c)
      else if c = CHR ''_'' then
        (case cs of
           [] \<Rightarrow> None
         | d # ds \<Rightarrow> if is_digit d then parse_digits cs acc else None)
      else None)"

definition parse_nat :: "string \<Rightarrow> nat option" where
  "parse_nat s = (case s of [] \<Rightarrow> None | c # cs \<Rightarrow> if is_digit c then parse_digits s 0 else None)"

text \<open>\<open>int(s)\<close>: \<open>None\<close> stands for the \<open>ValueError\<close>.\<close>

definition py_int :: "string \<Rightarrow> int option" where
  "py_int s =
     (case py_strip s of
        [] \<Rightarrow> None
      | c # cs \<Rightarrow>
          if c = CHR ''-'' then map_option (\<lambda>n. - int n) (parse_nat cs)
          else if c = CHR ''+'' then map_option int (parse_nat cs)
          else map_option int (parse_nat (c # cs)))"

text \<open>\<open>[int(part) for part in parts]\<close>: the comprehension raises at the first bad part.\<close>

fun py_int_all :: "string list \<Rightarrow> int list option" where
  "py_int_all [] = Some []"
| "py_int_all (p # ps) =
     (case py_int p of
        None \<Rightarrow> None
      | Some n \<Rightarrow> (case py_int_all ps of None \<Rightarrow> None | Some ns \<Rightarrow> Some (n # ns)))"


section \<open>Vulnerable components (scanner/vulnerable\_components.py)\<close>

record lib_info =
  versions :: "string list"
  cve :: string
  description :: string
  severity :: string
  recommendation :: string
  consequences :: string

definition jquery_info :: lib_info where
  "jquery_info = \<lparr>
     versions = [''1.0'', ''1.1'', ''1.2'', ''1.3'', ''1.4'', ''1.5'', ''1.6'', ''1.7'', ''1.8'',
                 ''1.9'', ''1.10'', ''1.11'', ''1.12'', ''2.0'', ''2.1'', ''2.2'', ''3.0'', ''3.1'',
                 ''3.2'', ''3.3'', ''3.4''],
     cve = ''Multiple CVEs'',
     description = ''Multiple vulnerabilities in jQuery may allow XSS, prototype pollution, or other security issues'',
     severity = ''Medium'',
     recommendation = ''Update to the latest version of jQuery'',
     consequences = ''Outdated jQuery versions may contain security vulnerabilities that could be exploited by attackers'' \<rparr>"

definition bootstrap_info :: lib_info where
  "bootstrap_info = \<lparr>
     versions = [''2.0'', ''2.1'', ''2.2'', ''2.3'', ''3.0'', ''3.1'', ''3.2'', ''3.3'', ''4.0'',
                 ''4.1'', ''4.2'', ''4.3'', ''4.4''],
     cve = ''Multiple CVEs'',
     description = ''Multiple vulnerabilities in Bootstrap may allow XSS or other security issues'',
     severity = ''Medium'',
     recommendation = ''Update to the latest version of Bootstrap'',
     consequences = ''Outdated Bootstrap versions may contain security vulnerabilities that could be exploited by attackers'' \<rparr>"

definition angular_info :: lib_info where
  "angular_info = \<lparr>
     versions = [''1.0'', ''1.1'', ''1.2'', ''1.3'', ''1.4'', ''1.5'', ''1.6'', ''1.7'', ''2.0'',
                 ''2.1'', ''2.2'', ''2.3'', ''2.4'', ''4.0'', ''4.1'', ''4.2'', ''4.3'', ''5.0'',
                 ''5.1'', ''5.2'', ''6.0'', ''6.1'', ''7.0'', ''7.1'', ''7.2'', ''8.0'', ''8.1'',
                 ''8.2'', ''9.0''],
     cve = ''Multiple CVEs'',
     description = ''Multiple vulnerabilities in AngularJS may allow XSS, prototype pollution, or other security issues'',
     severity = ''High'',
     recommendation = ''Update to the latest version of Angular'',
     consequences = ''Outdated Angular versions may contain security vulnerabilities that could be exploited by attackers'' \<rparr>"

definition react_info :: lib_info where
  "react_info = \<lparr>
     versions = [''0.3'', ''0.4'', ''0.5'', ''0.6'', ''0.7'', ''0.8'', ''0.9'', ''0.10'', ''0.11'',
                 ''0.12'', ''0.13'', ''0.14'', ''15.0'', ''15.1'', ''15.2'', ''15.3'', ''15.4'',
                 ''15.5'', ''15.6'', ''16.0'', ''16.1'', ''16.2'', ''16.3'', ''16.4'', ''16.5'',
                 ''16.6'', ''16.7'', ''16.8'', ''16.9''],
     cve = ''Multiple CVEs'',
     description = ''Multiple vulnerabilities in React may allow XSS or other security issues'',
     severity = ''Medium'',
     recommendation = ''Update to the latest version of React'',
     consequences = ''Outdated React versions may contain security vulnerabilities that could be exploited by attackers'' \<rparr>"

definition vue_info :: lib_info where
  "vue_info = \<lparr>
     versions = [''1.0'', ''2.0'', ''2.1'', ''2.2'', ''2.3'', ''2.4'', ''2.5'', ''2.6''],
     cve = ''Multiple CVEs'',
     description = ''Multiple vulnerabilities in Vue may allow XSS or other security issues'',
     severity = ''Medium'',
     recommendation = ''Update to the latest version of Vue'',
     consequences = ''Outdated Vue versions may contain security vulnerabilities that could be exploited by attackers'' \<rparr>"

definition lodash_info :: lib_info where
  "lodash_info = \<lparr>
     versions = [''0.1'', ''0.2'', ''0.3'', ''0.4'', ''0.5'', ''0.6'', ''0.7'', ''0.8'', ''0.9'',
                 ''1.0'', ''1.1'', ''1.2'', ''1.3'', ''2.0'', ''2.1'', ''2.2'', ''2.3'', ''2.4'',
                 ''3.0'', ''3.1'', ''3.2'', ''3.3'', ''3.4'', ''3.5'', ''3.6'', ''3.7'', ''3.8'',
                 ''3.9'', ''3.10'', ''4.0'', ''4.1'', ''4.2'', ''4.3'', ''4.4'', ''4.5'', ''4.6'',
                 ''4.7'', ''4.8'', ''4.9'', ''4.10'', ''4.11'', ''4.12'', ''4.13'', ''4.14'',
                 ''4.15'', ''4.16'', ''4.17.0'', ''4.17.1'', ''4.17.2'', ''4.17.3'', ''4.17.4'',
                 ''4.17.5'', ''4.17.6'', ''4.17.7'', ''4.17.8'', ''4.17.9'', ''4.17.10'',
                 ''4.17.11'', ''4.17.12'', ''4.17.13'', ''4.17.14'', ''4.17.15''],
     cve = ''CVE-2019-10744'',
     description = ''Prototype pollution vulnerability in Lodash'',
     severity = ''High'',
     recommendation = ''Update to the latest version of Lodash'',
     consequences = ''Attackers could potentially modify Object prototype, leading to application crashes or remote code execution'' \<rparr>"

definition moment_info :: lib_info where
  "moment_info = \<lparr>
     versions = [''1.0'', ''1.1'', ''1.2'', ''1.3'', ''1.4'', ''1.5'', ''1.6'', ''1.7'', ''2.0'',
                 ''2.1'', ''2.2'', ''2.3'', ''2.4'', ''2.5'', ''2.6'', ''2.7'', ''2.8'', ''2.9'',
                 ''2.10'', ''2.11'', ''2.12'', ''2.13'', ''2.14'', ''2.15'', ''2.16'', ''2.17'',
                 ''2.18'', ''2.19''],
     cve = ''CVE-2017-18214'',
     description = ''Regular expression denial of service (ReDoS) vulnerability in Moment.js'',
     severity = ''Medium'',
     recommendation = ''Update to the latest version of Moment.js'',
     consequences = ''Attackers could cause denial of service by providing specially crafted input to the parser'' \<rparr>"

text \<open>
  The built-in table, in the order of the source.  \<open>load_vulnerability_database\<close> can only
  add versions and libraries to it from an optional local file, so the functions below
  take the table as an argument.
\<close>

definition VULNERABLE_LIBRARIES :: "(string \<times> lib_info) list" where
  "VULNERABLE_LIBRARIES =
     [(''jquery'', jquery_info), (''bootstrap'', bootstrap_info), (''angular'', angular_info),
      (''react'', react_info), (''vue'', vue_info), (''lodash'', lodash_info),
      (''moment'', moment_info)]"

text \<open>
  The inner comparison loop of \<open>check_library_vulnerability\<close>: it walks both lists of
  parts from index 0, a missing part counting as 0, and stops at the first index where
  the parts differ; \<open>is_older\<close> stays \<open>False\<close> when no index differs.
\<close>

fun is_older :: "int list \<Rightarrow> int list \<Rightarrow> bool" where
  "is_older [] [] = False"
| "is_older (v1 # vs) [] = (if v1 < 0 then True else if v1 > 0 then False else is_older vs [])"
| "is_older [] (v2 # ws) = (if 0 < v2 then True else if 0 > v2 then False else is_older [] ws)"
| "is_older (v1 # vs) (v2 # ws) =
     (if v1 < v2 then True else if v1 > v2 then False else is_older vs ws)"

text \<open>
  The loop over the vulnerable versions: a listed version that does not parse is
  skipped; the first listed version that the given one is not older than makes the
  function return the library's record.
\<close>

fun check_against :: "lib_info \<Rightarrow> int list \<Rightarrow> string list \<Rightarrow> lib_info option" where
  "check_against info version_parts [] = None"
| "check_against info version_parts (vuln_version # rest) =
     (case py_int_all (py_split CHR ''.'' vuln_version) of
        None \<Rightarrow> check_against info version_parts rest
      | Some vuln_version_parts \<Rightarrow>
          if \<not> is_older version_parts vuln_version_parts then Some info
          else check_against info version_parts rest)"

definition check_library_vulnerability ::
  "(string \<times> lib_info) list \<Rightarrow> string \<Rightarrow> string \<Rightarrow> lib_info option" where
  "check_library_vulnerability db library version =
     (case map_of db (py_lower library) of
        None \<Rightarrow> None
      | Some info \<Rightarrow>
          if version \<in> set (versions info) then Some info
          else (case py_int_all (py_split CHR ''.'' version) of
                  None \<Rightarrow> Some info
                | Some version_parts \<Rightarrow> check_against info version_parts (versions info)))"


section \<open>Floating-point numbers (Python \<open>float\<close>)\<close>

text \<open>
  Response times are Python floats, that is IEEE-754 binary64 numbers.  A finite float
  is the rational number it denotes; every arithmetic operation computes the exact
  result and rounds it to the nearest binary64 number, ties to even.  The sign of zero
  is not represented (\<open>-0.0 == 0.0\<close> in every comparison).
\<close>

datatype pyfloat = Finite rat | PInf | NInf | NaN

fun bitlen :: "nat \<Rightarrow> nat" where
  "bitlen n = (if n = 0 then 0 else Suc (bitlen (n div 2)))"

declare bitlen.simps [simp del]

definition pow2 :: "int \<Rightarrow> rat" where
  "pow2 k = (if 0 \<le> k then 2 ^ nat k else 1 / 2 ^ nat (- k))"

text \<open>
  For \<open>a > 0\<close>, the exponent \<open>e\<close> with \<open>2 ^ e \<le> a < 2 ^ (e + 1)\<close>, from the number of
  bits of the integer part of \<open>a\<close> or of \<open>1 / a\<close>.
\<close>

definition floor_log2 :: "rat \<Rightarrow> int" where
  "floor_log2 a =
     (if 1 \<le> a then int (bitlen (nat \<lfloor>a\<rfloor>)) - 1
      else (let k = int (bitlen (nat \<lfloor>1 / a\<rfloor>))
            in if a = pow2 (1 - k) then 1 - k else - k))"

definition round_half_even :: "rat \<Rightarrow> int" where
  "round_half_even x =
     (let f = \<lfloor>x\<rfloor>; r = x - of_int f
      in if r < 1 / 2 then f
         else if 1 / 2 < r then f + 1
         else if even f then f else f + 1)"

text \<open>
  Rounding to binary64: 53 significant bits, the smallest quantum \<open>2 ^ -1074\<close>
  (subnormal numbers), overflow to infinity from \<open>2 ^ 1024\<close> on.
\<close>

definition round64 :: "rat \<Rightarrow> pyfloat" where
  "round64 q =
     (if q = 0 then Finite 0
      else
        let a = \<bar>q\<bar>;
            e = floor_log2 a;
            p = max (e - 52) (- 1074);
            m = round_half_even (a / pow2 p);
            r = of_int m * pow2 p
        in if pow2 1024 \<le> r then (if 0 < q then PInf else NInf)
           else Finite (if 0 < q then r else - r))"

fun float_add :: "pyfloat \<Rightarrow> pyfloat \<Rightarrow> pyfloat" where
  "float_add (Finite a) (Finite b) = round64 (a + b)"
| "float_add NaN y = NaN"
| "float_add x NaN = NaN"
| "float_add PInf NInf = NaN"
| "float_add NInf PInf = NaN"
| "float_add PInf y = PInf"
| "float_add NInf y = NInf"
| "float_add x PInf = PInf"
| "float_add x NInf = NInf"

text \<open>
  \<open>x / n\<close> for a float \<open>x\<close> and a positive int \<open>n\<close>: the int is converted to a float
  first.  With \<open>n = 0\<close> Python raises \<open>ZeroDivisionError\<close>; the only caller below
  divides by a count that it has just incremented.
\<close>

fun float_div_int :: "pyfloat \<Rightarrow> nat \<Rightarrow> pyfloat" where
  "float_div_int x 0 = NaN"
| "float_div_int (Finite a) n =
     (case round64 (of_nat n) of
        Finite b \<Rightarrow> round64 (a / b)
      | PInf \<Rightarrow> Finite 0
      | NInf \<Rightarrow> Finite 0
      | NaN \<Rightarrow> NaN)"
| "float_div_int PInf n = PInf"
| "float_div_int NInf n = NInf"
| "float_div_int NaN n = NaN"

fun float_lt :: "pyfloat \<Rightarrow> pyfloat \<Rightarrow> bool" where
  "float_lt (Finite a) (Finite b) = (a < b)"
| "float_lt NaN y = False"
| "float_lt x NaN = False"
| "float_lt x NInf = False"
| "float_lt PInf y = False"
| "float_lt NInf y = True"
| "float_lt x PInf = True"

definition float_le :: "pyfloat \<Rightarrow> pyfloat \<Rightarrow> bool" where
  "float_le x y = (float_lt x y \<or> (x = y \<and> x \<noteq> NaN))"

text \<open>
  The built-ins \<open>min(a, b)\<close> and \<open>max(a, b)\<close> keep the first argument unless the
  second is strictly smaller (greater).
\<close>

definition py_min :: "pyfloat \<Rightarrow> pyfloat \<Rightarrow> pyfloat" where
  "py_min a b = (if float_lt b a then b else a)"

definition py_max :: "pyfloat \<Rightarrow> pyfloat \<Rightarrow> pyfloat" where
  "py_max a b = (if float_lt a b then b else a)"

section \<open>URLs (urllib.parse, as used by scanner/utils.py)\<close>

datatype py_error = ValueError | RequestError | OtherError

text \<open>
  \<open>urlsplit\<close>, \<open>urlparse\<close>, \<open>urlunsplit\<close> and \<open>urlunparse\<close> of CPython 3.11, on
  \<open>str\<close> arguments with the default \<open>scheme\<close> and \<open>allow_fragments\<close>.  Two
  validations of the network location are library code that is not modelled: the
  address check of a bracketed host (\<open>_check_bracketed_host\<close>) and the NFKC check of a
  non-ASCII netloc (\<open>_checknetloc\<close>).  They are parameters; neither is consulted for an
  ASCII netloc without brackets.
\<close>

record urllib =
  bracketed_host_ok :: "string \<Rightarrow> bool"
  nfkc_netloc_ok :: "string \<Rightarrow> bool"

record parse_result =
  scheme :: string
  netloc :: string
  path :: string
  params :: string
  query :: string
  fragment :: string

definition is_c0_control_or_space :: "char \<Rightarrow> bool" where
  "is_c0_control_or_space c = ((of_char c :: nat) \<le> 32)"

definition is_unsafe_url_byte :: "char \<Rightarrow> bool" where
  "is_unsafe_url_byte c = (let n = (of_char c :: nat) in n = 9 \<or> n = 10 \<or> n = 13)"

definition is_ascii :: "char \<Rightarrow> bool" where
  "is_ascii c = ((of_char c :: nat) < 128)"

definition is_ascii_alpha :: "char \<Rightarrow> bool" where
  "is_ascii_alpha c = (let n = (of_char c :: nat) in (65 \<le> n \<and> n \<le> 90) \<or> (97 \<le> n \<and> n \<le> 122))"

definition is_scheme_char :: "char \<Rightarrow> bool" where
  "is_scheme_char c =
     (is_ascii_alpha c \<or> is_digit c \<or> c = CHR ''+'' \<or> c = CHR ''-'' \<or> c = CHR ''.'')"

definition uses_params :: "string list" where
  "uses_params = [[], ''ftp'', ''hdl'', ''prospero'', ''http'', ''imap'', ''https'', ''shttp'',
                  ''rtsp'', ''rtsps'', ''rtspu'', ''sip'', ''sips'', ''mms'', ''sftp'', ''tel'']"

definition uses_netloc :: "string list" where
  "uses_netloc = [[], ''ftp'', ''http'', ''gopher'', ''nntp'', ''telnet'', ''imap'', ''wais'',
                  ''file'', ''mms'', ''https'', ''shttp'', ''snews'', ''prospero'', ''rtsp'',
                  ''rtsps'', ''rtspu'', ''rsync'', ''svn'', ''svn+ssh'', ''sftp'', ''nfs'', ''git'',
                  ''git+ssh'', ''ws'', ''wss'']"

text \<open>\<open>s.split(c, 1)\<close> for a string that contains \<open>c\<close>: the parts before and after the first \<open>c\<close>.\<close>

definition split_first :: "char \<Rightarrow> string \<Rightarrow> string \<times> string" where
  "split_first c s = (takeWhile (\<lambda>x. x \<noteq> c) s, drop 1 (dropWhile (\<lambda>x. x \<noteq> c) s))"

definition split_scheme :: "string \<Rightarrow> string \<times> string" where
  "split_scheme url =
     (let pre = takeWhile (\<lambda>x. x \<noteq> CHR '':'') url
      in if CHR '':'' \<in> set url \<and> pre \<noteq> [] \<and> is_ascii_alpha (hd pre) \<and> list_all is_scheme_char pre
         then (py_lower pre, drop (Suc (length pre)) url)
         else ([], url))"

definition is_netloc_delim :: "char \<Rightarrow> bool" where
  "is_netloc_delim c = (c = CHR ''/'' \<or> c = CHR ''?'' \<or> c = CHR ''#'')"

text \<open>\<open>_splitnetloc(url, 2)\<close>, called on a string that starts with two slashes.\<close>

definition splitnetloc :: "string \<Rightarrow> string \<times> string" where
  "splitnetloc url =
     (takeWhile (\<lambda>c. \<not> is_netloc_delim c) (drop 2 url),
      dropWhile (\<lambda>c. \<not> is_netloc_delim c) (drop 2 url))"

text \<open>\<open>netloc.partition('[')[2].partition(']')[0]\<close>\<close>

definition bracketed_host :: "string \<Rightarrow> string" where
  "bracketed_host nl =
     takeWhile (\<lambda>c. c \<noteq> CHR '']'') (drop 1 (dropWhile (\<lambda>c. c \<noteq> CHR ''['') nl))"

definition netloc_error :: "urllib \<Rightarrow> string \<Rightarrow> bool" where
  "netloc_error lib nl =
     ((CHR ''['' \<in> set nl \<and> CHR '']'' \<notin> set nl) \<or> (CHR '']'' \<in> set nl \<and> CHR ''['' \<notin> set nl)
      \<or> (CHR ''['' \<in> set nl \<and> CHR '']'' \<in> set nl \<and> \<not> bracketed_host_ok lib (bracketed_host nl))
      \<or> (nl \<noteq> [] \<and> \<not> list_all is_ascii nl \<and> \<not> nfkc_netloc_ok lib nl))"

definition urlsplit :: "urllib \<Rightarrow> string \<Rightarrow> py_error + (string \<times> string \<times> string \<times> string \<times> string)" where
  "urlsplit lib url0 =
     (let url1 = filter (\<lambda>c. \<not> is_unsafe_url_byte c) (dropWhile is_c0_control_or_space url0);
          (sch, url2) = split_scheme url1;
          (nl, url3) = (if take 2 url2 = ''//'' then splitnetloc url2 else ([], url2));
          (url4, frag) = (if CHR ''#'' \<in> set url3 then split_first CHR ''#'' url3 else (url3, []));
          (url5, qry) = (if CHR ''?'' \<in> set url4 then split_first CHR ''?'' url4 else (url4, []))
      in if netloc_error lib nl then Inl ValueError
         else Inr (sch, nl, url5, qry, frag))"

text \<open>
  \<open>_splitparams\<close>: the parameters start at the first semicolon of the last path segment.
\<close>

definition splitparams :: "string \<Rightarrow> string \<times> string" where
  "splitparams url =
     (if CHR ''/'' \<in> set url then
        (let k = length (takeWhile (\<lambda>c. c \<noteq> CHR ''/'') (rev url));
             r = length url - Suc k;
             seg = drop r url
         in if CHR '';'' \<in> set seg
            then (take r url @ takeWhile (\<lambda>c. c \<noteq> CHR '';'') seg,
                  drop 1 (dropWhile (\<lambda>c. c \<noteq> CHR '';'') seg))
            else (url, []))
      else split_first CHR '';'' url)"

definition urlparse :: "urllib \<Rightarrow> string \<Rightarrow> py_error + parse_result" where
  "urlparse lib url =
     (case urlsplit lib url of
        Inl e \<Rightarrow> Inl e
      | Inr (sch, nl, u, qry, frag) \<Rightarrow>
          (let (u', prm) = (if sch \<in> set uses_params \<and> CHR '';'' \<in> set u then splitparams u
                            else (u, []))
           in Inr \<lparr> scheme = sch, netloc = nl, path = u', params = prm, query = qry,
                    fragment = frag \<rparr>))"

definition urlunsplit :: "string \<times> string \<times> string \<times> string \<times> string \<Rightarrow> string" where
  "urlunsplit c =
     (case c of (sch, nl, url, qry, frag) \<Rightarrow>
        (let url1 = (if nl \<noteq> [] \<or> (sch \<noteq> [] \<and> sch \<in> set uses_netloc) \<or> take 2 url = ''//''
                     then ''//'' @ nl @ (if url \<noteq> [] \<and> take 1 url \<noteq> ''/'' then ''/'' @ url else url)
                     else url);
             url2 = (if sch \<noteq> [] then sch @ '':'' @ url1 else url1);
             url3 = (if qry \<noteq> [] then url2 @ ''?'' @ qry else url2)
         in if frag \<noteq> [] then url3 @ ''#'' @ frag else url3))"

definition urlunparse :: "parse_result \<Rightarrow> string" where
  "urlunparse p =
     (let url = (if params p \<noteq> [] then path p @ '';'' @ params p else path p)
      in urlunsplit (scheme p, netloc p, url, query p, fragment p))"

subsection \<open>scanner/utils.py\<close>

definition normalize_url :: "urllib \<Rightarrow> string \<Rightarrow> py_error + string" where
  "normalize_url lib url =
     (case urlparse lib url of
        Inl e \<Rightarrow> Inl e
      | Inr parsed0 \<Rightarrow>
          (let parsed = parsed0 \<lparr> fragment := [] \<rparr>;
               path0 = path parsed;
               path1 = (if path0 = [] then ''/'' else path0);
               path2 = (if path1 \<noteq> [] \<and> last path1 = CHR ''/'' \<and> length path1 > 1
                        then butlast path1 else path1)
           in Inr (urlunparse (parsed \<lparr> path := path2 \<rparr>))))"

definition is_valid_url :: "urllib \<Rightarrow> string \<Rightarrow> bool" where
  "is_valid_url lib url =
     (case urlparse lib url of
        Inl e \<Rightarrow> False
      | Inr r \<Rightarrow> scheme r \<noteq> [] \<and> netloc r \<noteq> [])"

definition get_base_url :: "urllib \<Rightarrow> string \<Rightarrow> py_error + string" where
  "get_base_url lib url =
     (case urlparse lib url of
        Inl e \<Rightarrow> Inl e
      | Inr r \<Rightarrow> Inr (scheme r @ ''://'' @ netloc r))"

definition is_same_domain :: "urllib \<Rightarrow> string \<Rightarrow> string \<Rightarrow> py_error + bool" where
  "is_same_domain lib url1 url2 =
     (case get_base_url lib url1 of
        Inl e \<Rightarrow> Inl e
      | Inr b1 \<Rightarrow> (case get_base_url lib url2 of
                     Inl e \<Rightarrow> Inl e
                   | Inr b2 \<Rightarrow> Inr (b1 = b2)))"

text \<open>\<open>Scanner._get_file_from_url\<close> (scanner/scanner.py), with the POSIX \<open>os.path.basename\<close>.\<close>

definition basename :: "string \<Rightarrow> string" where
  "basename p = rev (takeWhile (\<lambda>c. c \<noteq> CHR ''/'') (rev p))"

definition get_file_from_url :: "urllib \<Rightarrow> string \<Rightarrow> py_error + string" where
  "get_file_from_url lib url =
     (case urlparse lib url of
        Inl e \<Rightarrow> Inl e
      | Inr parsed \<Rightarrow>
          if path parsed \<noteq> [] \<and> last (path parsed) = CHR ''/'' then Inr ''index.html''
          else Inr (if basename (path parsed) \<noteq> [] then basename (path parsed) else ''index.html''))"


section \<open>Forms and findings\<close>

record input_field =
  input_type :: string
  input_name :: string
  input_value :: string

record form =
  action :: string
  form_method :: string
  inputs :: "input_field list"

text \<open>
  The \<open>details\<close> of a finding are a dictionary from keys to strings or to a form; it is
  kept as a list of entries in the order of the dictionary display in the source.
\<close>

datatype pyval = Str string | FormVal form

type_synonym details = "(string \<times> pyval) list"

text \<open>
  \<open>vuln_data\<close> of \<open>Scanner._add_vulnerability\<close>.  Its \<open>timestamp\<close> entry (the wall clock) is
  left out.
\<close>

record finding =
  vuln_type :: string
  vuln_url :: string
  vuln_details :: details
  vuln_file :: string


section \<open>Scan statistics (scanner/stats.py)\<close>

text \<open>
  \<open>ScanStats\<close>.  The fields \<open>start_time\<close> and \<open>end_time\<close> (the wall clock) and the
  methods that only read them (\<open>complete\<close>, \<open>get_duration\<close>) or write files (\<open>save\<close>)
  are left out; so is the timestamp of an entry of \<open>vulnerable_urls\<close>.
\<close>

record scan_stats =
  total_urls_scanned :: nat
  total_requests :: nat
  total_errors :: nat
  total_vulnerabilities :: nat
  vulnerabilities_by_type :: "string \<rightharpoonup> nat"
  errors_by_type :: "string \<rightharpoonup> nat"
  response_codes :: "int \<rightharpoonup> nat"
  scanned_urls :: "string list"
  vulnerable_urls :: "(string \<times> string \<times> finding) list"
  avg_response_time :: pyfloat
  total_response_time :: pyfloat
  min_response_time :: pyfloat
  max_response_time :: pyfloat

definition ScanStats_init :: scan_stats where
  "ScanStats_init = \<lparr>
     total_urls_scanned = 0,
     total_requests = 0,
     total_errors = 0,
     total_vulnerabilities = 0,
     vulnerabilities_by_type =
       [''xss'' \<mapsto> 0, ''sql_injection'' \<mapsto> 0, ''broken_access_control'' \<mapsto> 0,
        ''crypto_failure_no_https'' \<mapsto> 0, ''crypto_failure_insecure_cookies'' \<mapsto> 0,
        ''crypto_failure_outdated_tls'' \<mapsto> 0, ''insecure_design_csrf'' \<mapsto> 0,
        ''insecure_design_no_rate_limiting'' \<mapsto> 0],
     errors_by_type = Map.empty,
     response_codes = Map.empty,
     scanned_urls = [],
     vulnerable_urls = [],
     avg_response_time = Finite 0,
     total_response_time = Finite 0,
     min_response_time = PInf,
     max_response_time = Finite 0 \<rparr>"

text \<open>\<open>d[k] = d.get(k, 0) + 1\<close>\<close>

definition count_up :: "('k \<rightharpoonup> nat) \<Rightarrow> 'k \<Rightarrow> ('k \<rightharpoonup> nat)" where
  "count_up d k = d(k \<mapsto> (case d k of None \<Rightarrow> 0 | Some n \<Rightarrow> n) + 1)"

definition add_url :: "string \<Rightarrow> scan_stats \<Rightarrow> scan_stats" where
  "add_url url st =
     st \<lparr> scanned_urls := scanned_urls st @ [url],
          total_urls_scanned := total_urls_scanned st + 1 \<rparr>"

definition add_vulnerability_stats :: "string \<Rightarrow> string \<Rightarrow> finding \<Rightarrow> scan_stats \<Rightarrow> scan_stats" where
  "add_vulnerability_stats vtype url vd st =
     st \<lparr> total_vulnerabilities := total_vulnerabilities st + 1,
          vulnerabilities_by_type := count_up (vulnerabilities_by_type st) vtype,
          vulnerable_urls := vulnerable_urls st @ [(vtype, url, vd)] \<rparr>"

definition add_error :: "string \<Rightarrow> scan_stats \<Rightarrow> scan_stats" where
  "add_error error_type st =
     st \<lparr> total_errors := total_errors st + 1,
          errors_by_type := count_up (errors_by_type st) error_type \<rparr>"

definition add_response :: "int \<Rightarrow> pyfloat \<Rightarrow> scan_stats \<Rightarrow> scan_stats" where
  "add_response status response_time st =
     (let n = total_requests st + 1;
          total = float_add (total_response_time st) response_time
      in st \<lparr> total_requests := n,
               response_codes := count_up (response_codes st) status,
               total_response_time := total,
               avg_response_time := float_div_int total n,
               min_response_time := py_min (min_response_time st) response_time,
               max_response_time := py_max (max_response_time st) response_time \<rparr>)"

record performance =
  perf_avg_response_time :: pyfloat
  perf_min_response_time :: pyfloat
  perf_max_response_time :: pyfloat

record stats_summary =
  sum_total_urls_scanned :: nat
  sum_total_requests :: nat
  sum_total_errors :: nat
  sum_total_vulnerabilities :: nat
  sum_vulnerabilities_by_type :: "string \<rightharpoonup> nat"
  sum_errors_by_type :: "string \<rightharpoonup> nat"
  sum_response_codes :: "int \<rightharpoonup> nat"
  sum_performance :: performance

definition get_summary :: "scan_stats \<Rightarrow> stats_summary" where
  "get_summary st = \<lparr>
     sum_total_urls_scanned = total_urls_scanned st,
     sum_total_requests = total_requests st,
     sum_total_errors = total_errors st,
     sum_total_vulnerabilities = total_vulnerabilities st,
     sum_vulnerabilities_by_type = vulnerabilities_by_type st,
     sum_errors_by_type = errors_by_type st,
     sum_response_codes = response_codes st,
     sum_performance = \<lparr>
       perf_avg_response_time = avg_response_time st,
       perf_min_response_time = min_response_time st,
       perf_max_response_time = max_response_time st \<rparr> \<rparr>"

text \<open>A sequence of \<open>add_response\<close> calls on a fresh \<open>ScanStats\<close>, oldest first.\<close>

definition record_responses :: "(int \<times> pyfloat) list \<Rightarrow> scan_stats \<Rightarrow> scan_stats" where
  "record_responses rs st = foldl (\<lambda>st (code, t). add_response code t st) st rs"

section \<open>The scanner (scanner/scanner.py)\<close>

subsection \<open>Configuration, responses and the outside world\<close>

text \<open>The options of \<open>ScannerConfig\<close> that \<open>Scanner\<close> reads while scanning.\<close>

record config =
  max_depth :: int
  max_pages :: int
  max_retries :: int
  rate_limit :: int
  scan_forms :: bool
  scan_links :: bool
  scan_headers :: bool
  scan_xss :: bool
  scan_broken_access :: bool
  scan_crypto_failures :: bool
  scan_insecure_design :: bool
  scan_security_misconfigurations :: bool
  scan_vulnerable_components :: bool
  scan_auth_failures :: bool
  scan_integrity_failures :: bool
  scan_logging_monitoring :: bool
  scan_ssrf :: bool
  sql_payloads :: "string list"

text \<open>
  A \<open>requests.Response\<close>: the status code, \<open>elapsed.total_seconds()\<close>, the headers (a
  case-insensitive dictionary, as its list of items) and the body text.
\<close>

record response =
  status_code :: int
  elapsed :: pyfloat
  headers :: "(string \<times> string) list"
  body_text :: string

datatype http_result = Response response | Raises py_error

record http_request =
  req_method :: string
  req_url :: string
  req_data :: "string \<rightharpoonup> string"

text \<open>
  What the scanner does to the outside world, in order: the requests it sends itself and
  the pauses it makes.  The log is not part of the source; it records the calls of
  \<open>session.get\<close>, \<open>session.post\<close> and \<open>time.sleep\<close> in \<open>scanner.py\<close>.
\<close>

datatype event = Sent http_request | SleepScanDelay | SleepRateLimit

record raw_vuln =
  rv_type :: string
  rv_url :: string
  rv_details :: details

text \<open>An \<open>a\<close>, \<open>link\<close>, \<open>script\<close> or \<open>img\<close> tag of a parsed page with its two attributes of interest.\<close>

record link_tag =
  href :: "string option"
  src :: "string option"

text \<open>
  The environment of a scan: its configuration, and everything that is decided outside
  \<open>scanner.py\<close> and \<open>utils.py\<close>.  The network (\<open>http\<close>) answers a request depending on
  the number of events so far, so that the same request may be answered differently
  each time.  The HTML parser, \<open>urljoin\<close>, \<open>extract_forms\<close> and the detectors of the other
  modules are functions of their arguments that return a value or raise.
\<close>

record env =
  config :: config
  lib :: urllib
  HAS_OWASP_SCANNERS :: bool
  fresh_uuid :: string
  http :: "nat \<Rightarrow> http_request \<Rightarrow> http_result"
  soup_link_tags :: "string \<Rightarrow> link_tag list"
  urljoin :: "string \<Rightarrow> string \<Rightarrow> py_error + string"
  extract_forms :: "string \<Rightarrow> string \<Rightarrow> py_error + form list"
  scan_url_parameters :: "string \<Rightarrow> details list \<times> py_error option"
  is_vulnerable_to_xss :: "response \<Rightarrow> string \<Rightarrow> py_error + bool"
  get_xss_details :: "response \<Rightarrow> string \<Rightarrow> string \<Rightarrow> py_error + details"
  XSS_PAYLOADS :: "string list"
  check_insecure_design :: "string \<Rightarrow> form \<Rightarrow> response \<Rightarrow> py_error + raw_vuln list"
  check_access_control :: "string \<Rightarrow> py_error + raw_vuln list"
  check_cryptographic_failures :: "string \<Rightarrow> response \<Rightarrow> py_error + raw_vuln list"
  check_security_misconfiguration :: "string \<Rightarrow> response \<Rightarrow> py_error + raw_vuln list"
  check_vulnerable_components :: "string \<Rightarrow> response \<Rightarrow> py_error + raw_vuln list"
  check_authentication_failures :: "string \<Rightarrow> response \<Rightarrow> py_error + raw_vuln list"
  check_integrity_failures :: "string \<Rightarrow> response \<Rightarrow> py_error + raw_vuln list"
  check_logging_monitoring :: "string \<Rightarrow> response \<Rightarrow> py_error + raw_vuln list"
  check_ssrf :: "string \<Rightarrow> response \<Rightarrow> py_error + raw_vuln list"

record link_data =
  source_url :: string
  target_url :: string

record form_data =
  fd_url :: string
  fd_action :: string
  fd_method :: string
  fd_inputs :: "input_field list"

text \<open>The mutable attributes of a \<open>Scanner\<close> object, and the log of its events.\<close>

record scanner =
  stats :: scan_stats
  visited_urls :: "string fset"
  vulnerabilities :: "finding list"
  scanned_links :: "link_data list"
  scanned_forms :: "form_data list"
  scan_id :: "string option"
  events :: "event list"

text \<open>\<open>Scanner.__init__\<close>\<close>

definition Scanner_init :: scanner where
  "Scanner_init = \<lparr>
     stats = ScanStats_init,
     visited_urls = {||},
     vulnerabilities = [],
     scanned_links = [],
     scanned_forms = [],
     scan_id = None,
     events = [] \<rparr>"

text \<open>
  A statement that may raise returns the state it has reached and the exception, if any
  (\<open>None\<close> when it completes): what it has changed before raising stays changed.
\<close>

type_synonym raising = "scanner \<times> py_error option"

subsection \<open>utils.py: links, errors, headers, SQL errors\<close>

definition starts_with_http :: "string \<Rightarrow> bool" where
  "starts_with_http s = (prefix ''http://'' s \<or> prefix ''https://'' s)"

text \<open>\<open>tag.get('href') or tag.get('src')\<close>\<close>

definition tag_target :: "link_tag \<Rightarrow> string option" where
  "tag_target t =
     (case href t of
        Some h \<Rightarrow> if h \<noteq> [] then Some h else src t
      | None \<Rightarrow> src t)"

text \<open>
  The loop of \<open>extract_links\<close> over the tags.  \<open>normalize_url\<close> and \<open>is_same_domain\<close> may
  raise; \<open>is_valid_url\<close> catches its own exceptions.
\<close>

fun collect_links :: "env \<Rightarrow> string \<Rightarrow> link_tag list \<Rightarrow> string list \<Rightarrow> py_error + string list" where
  "collect_links E base_url [] links = Inr links"
| "collect_links E base_url (t # ts) links =
     (case tag_target t of
        None \<Rightarrow> collect_links E base_url ts links
      | Some h \<Rightarrow>
          if h = [] then collect_links E base_url ts links
          else
            (case (if \<not> starts_with_http h then urljoin E base_url h else Inr h) of
               Inl e \<Rightarrow> Inl e
             | Inr h1 \<Rightarrow>
                 (case normalize_url (lib E) h1 of
                    Inl e \<Rightarrow> Inl e
                  | Inr h2 \<Rightarrow>
                      if is_valid_url (lib E) h2 then
                        (case is_same_domain (lib E) h2 base_url of
                           Inl e \<Rightarrow> Inl e
                         | Inr same \<Rightarrow>
                             collect_links E base_url ts (if same then links @ [h2] else links))
                      else collect_links E base_url ts links)))"

text \<open>
  \<open>extract_links\<close>.  The result is \<open>list(set(links))\<close>, whose order Python does not fix; the
  model keeps the order of first occurrence.
\<close>

definition extract_links :: "env \<Rightarrow> string \<Rightarrow> string \<Rightarrow> py_error + string list" where
  "extract_links E html base_url =
     (case collect_links E base_url (soup_link_tags E html) [] of
        Inl e \<Rightarrow> Inl e
      | Inr links \<Rightarrow> Inr (remdups links))"

definition is_error_response :: "response \<Rightarrow> bool" where
  "is_error_response r = (status_code r \<ge> 400)"

definition get_error_type :: "response \<Rightarrow> string" where
  "get_error_type r =
     (if status_code r \<ge> 500 then ''server_error''
      else if status_code r \<ge> 400 then ''client_error''
      else ''unknown'')"

record header_info =
  header_description :: string
  header_consequences :: string

definition security_headers :: "(string \<times> header_info) list" where
  "security_headers =
     [(''X-Frame-Options'', \<lparr>
         header_description = ''Protects against clickjacking attacks'',
         header_consequences = ''Without this header, attackers could embed your site in a malicious webpage and trick users into clicking on elements they didn't intend to, potentially leading to unwanted actions or data theft.'' \<rparr>),
      (''X-Content-Type-Options'', \<lparr>
         header_description = ''Prevents MIME-sniffing attacks'',
         header_consequences = ''Without this header, browsers might interpret files as a different type than what you intended, allowing attackers to potentially execute malicious scripts even when they shouldn't be executable.'' \<rparr>),
      (''X-XSS-Protection'', \<lparr>
         header_description = ''Provides protection against cross-site scripting'',
         header_consequences = ''Without this header, malicious scripts could be injected into your webpage and execute in users' browsers, potentially stealing cookies, session tokens, or other sensitive information.'' \<rparr>),
      (''Content-Security-Policy'', \<lparr>
         header_description = ''Controls resources the browser is allowed to load'',
         header_consequences = ''Without this header, your site could load resources from any source, making it vulnerable to script injection attacks that could compromise user data or take control of page behavior.'' \<rparr>),
      (''Strict-Transport-Security'', \<lparr>
         header_description = ''Forces HTTPS connections'',
         header_consequences = ''Without this header, communications between your site and users might be downgraded to insecure HTTP, allowing attackers to intercept and modify data in transit, or perform man-in-the-middle attacks.'' \<rparr>),
      (''Referrer-Policy'', \<lparr>
         header_description = ''Controls how much referrer information is included with requests'',
         header_consequences = ''Without this header, sensitive information might be leaked in the referrer header when users navigate from your site to other sites, potentially exposing private data or user activity.'' \<rparr>)]"

text \<open>
  Lookup in the case-insensitive dictionary \<open>response.headers\<close>: keys are compared in
  lower case.
\<close>

definition header_lookup :: "(string \<times> string) list \<Rightarrow> string \<Rightarrow> string option" where
  "header_lookup hs name = map_of (map (\<lambda>(k, v). (py_lower k, v)) hs) (py_lower name)"

record headers_result =
  found :: "(string \<times> string) list"
  missing :: "(string \<times> header_info) list"

fun extract_headers_loop ::
  "(string \<times> string) list \<Rightarrow> (string \<times> header_info) list \<Rightarrow> headers_result \<Rightarrow> headers_result" where
  "extract_headers_loop hs [] acc = acc"
| "extract_headers_loop hs ((header, info) # rest) acc =
     extract_headers_loop hs rest
       (case header_lookup hs header of
          Some v \<Rightarrow> acc \<lparr> found := found acc @ [(header, v)] \<rparr>
        | None \<Rightarrow> acc \<lparr> missing := missing acc @ [(header, info)] \<rparr>)"

definition extract_headers :: "response \<Rightarrow> headers_result" where
  "extract_headers r = extract_headers_loop (headers r) security_headers \<lparr> found = [], missing = [] \<rparr>"

definition sql_errors :: "string list" where
  "sql_errors =
     [''SQL syntax'', ''mysql_fetch_array'', ''mysql_fetch_assoc'', ''mysql_num_rows'',
      ''mysql_result'', ''mysql_query'', ''mysql error'', ''ORA-'', ''SQLite/JDBCDriver'',
      ''SQLite.Exception'', ''System.Data.SQLite.SQLiteException'', ''Warning: mysql_'',
      ''PostgreSQL.*ERROR'', ''Warning.*pg_'', ''valid PostgreSQL result'', ''Npgsql.'',
      ''Microsoft SQL Server'', ''ODBC SQL Server Driver'', ''SQLServer JDBC Driver'',
      ''com.microsoft.sqlserver.jdbc'', ''SQLServerException'', ''SQLServer JDBC Driver'',
      ''SQLServerDriver'', ''SQLServer'', ''SQLite/JDBCDriver'', ''SQLite.Exception'',
      ''System.Data.SQLite.SQLiteException'', ''Warning: mysql_'', ''valid MySQL result'',
      ''check the manual that corresponds to your (MySQL|MariaDB) server version'',
      ''Unknown column'', ''MySqlClient.'', ''com.mysql.jdbc.exceptions'']"

text \<open>\<open>a in b\<close> on strings\<close>

definition py_in :: "string \<Rightarrow> string \<Rightarrow> bool" where
  "py_in a b = sublist a b"

definition is_vulnerable_to_sql_injection :: "response \<Rightarrow> string \<Rightarrow> bool" where
  "is_vulnerable_to_sql_injection r payload =
     list_ex (\<lambda>error. py_in (py_lower error) (py_lower (body_text r))) sql_errors"

subsection \<open>Findings, requests and retries\<close>

text \<open>
  \<open>Scanner._add_vulnerability\<close>.  It raises, before it changes anything, when the URL
  does not parse.
\<close>

definition add_vulnerability :: "env \<Rightarrow> string \<Rightarrow> string \<Rightarrow> details \<Rightarrow> scanner \<Rightarrow> py_error + scanner" where
  "add_vulnerability E vtype url det s =
     (case get_file_from_url (lib E) url of
        Inl e \<Rightarrow> Inl e
      | Inr f \<Rightarrow>
          (let vuln_data = \<lparr> vuln_type = vtype, vuln_url = url, vuln_details = det, vuln_file = f \<rparr>
           in Inr (s \<lparr> vulnerabilities := vulnerabilities s @ [vuln_data],
                       stats := add_vulnerability_stats vtype url vuln_data (stats s) \<rparr>)))"

text \<open>The loops \<open>for vuln in vulns: self._add_vulnerability(...)\<close>.\<close>

fun add_vulnerabilities :: "env \<Rightarrow> (string \<times> string \<times> details) list \<Rightarrow> scanner \<Rightarrow> raising" where
  "add_vulnerabilities E [] s = (s, None)"
| "add_vulnerabilities E ((vtype, url, det) # rest) s =
     (case add_vulnerability E vtype url det s of
        Inl e \<Rightarrow> (s, Some e)
      | Inr s1 \<Rightarrow> add_vulnerabilities E rest s1)"

text \<open>\<open>session.get\<close> and \<open>session.post\<close>: the request is logged and the network answers.\<close>

definition send :: "env \<Rightarrow> http_request \<Rightarrow> scanner \<Rightarrow> scanner \<times> http_result" where
  "send E req s = (s \<lparr> events := events s @ [Sent req] \<rparr>, http E (length (events s)) req)"

definition page_request :: "string \<Rightarrow> http_request" where
  "page_request url = \<lparr> req_method = ''GET'', req_url = url, req_data = Map.empty \<rparr>"

text \<open>
  \<open>Scanner._make_request\<close>: the loop over \<open>range(max_retries)\<close>.  The result is the
  response, \<open>None\<close>, or an exception that is not a \<open>RequestException\<close>.  When the range is
  exhausted the function falls off its end and returns \<open>None\<close>.
\<close>

fun make_request_loop :: "env \<Rightarrow> string \<Rightarrow> int list \<Rightarrow> scanner \<Rightarrow> scanner \<times> (py_error + response option)" where
  "make_request_loop E url [] s = (s, Inr None)"
| "make_request_loop E url (attempt # rest) s =
     (case send E (page_request url) s of
        (s1, Response r) \<Rightarrow> (s1, Inr (Some r))
      | (s1, Raises e) \<Rightarrow>
          if e = RequestError then
            (if attempt = max_retries (config E) - 1 then (s1, Inr None)
             else make_request_loop E url rest (s1 \<lparr> events := events s1 @ [SleepScanDelay] \<rparr>))
          else (s1, Inl e))"

definition make_request :: "env \<Rightarrow> string \<Rightarrow> scanner \<Rightarrow> scanner \<times> (py_error + response option)" where
  "make_request E url s = make_request_loop E url [0 .. max_retries (config E) - 1] s"

subsection \<open>Scanning a form\<close>

text \<open>
  The dictionary \<open>data\<close> that \<open>_scan_form\<close> builds for one payload: every input whose type
  is not \<open>submit\<close>, \<open>button\<close> or \<open>image\<close> gets the payload.
\<close>

fun build_data :: "input_field list \<Rightarrow> string \<Rightarrow> (string \<rightharpoonup> string) \<Rightarrow> (string \<rightharpoonup> string)" where
  "build_data [] payload data = data"
| "build_data (input_field # rest) payload data =
     build_data rest payload
       (if input_type input_field \<notin> set [''submit'', ''button'', ''image'']
        then data(input_name input_field \<mapsto> payload) else data)"

definition form_request :: "env \<Rightarrow> form \<Rightarrow> (string \<rightharpoonup> string) \<Rightarrow> scanner \<Rightarrow> scanner \<times> http_result" where
  "form_request E fm data s =
     (if form_method fm = ''get''
      then send E \<lparr> req_method = ''GET'', req_url = action fm, req_data = data \<rparr> s
      else send E \<lparr> req_method = ''POST'', req_url = action fm, req_data = data \<rparr> s)"

text \<open>
  After the inner loop over the inputs, \<open>input_field\<close> is the last input of the form; the
  form has at least one input here.
\<close>

definition sql_details :: "form \<Rightarrow> string \<Rightarrow> details" where
  "sql_details fm payload =
     [(''form'', FormVal fm),
      (''payload'', Str payload),
      (''method'', Str (form_method fm)),
      (''description'', Str ''SQL injection vulnerability detected''),
      (''severity'', Str ''High''),
      (''recommendation'', Str ''Use parameterized queries and input validation''),
      (''input_field'', Str (input_name (last (inputs fm)))),
      (''consequences'', Str ''Without proper input validation, attackers could inject malicious SQL commands that might access, modify, or delete data in your database. This could lead to unauthorized access, data theft, data loss, or complete system compromise.'')]"

text \<open>
  The SQL injection loop of \<open>_scan_form\<close>.  Every exception of an iteration is caught and
  logged; the loop has no \<open>break\<close>.
\<close>

fun test_sql_injection :: "env \<Rightarrow> form \<Rightarrow> string \<Rightarrow> string list \<Rightarrow> scanner \<Rightarrow> scanner" where
  "test_sql_injection E fm url [] s = s"
| "test_sql_injection E fm url (payload # rest) s =
     test_sql_injection E fm url rest
       (case form_request E fm (build_data (inputs fm) payload Map.empty) s of
          (s1, Response r) \<Rightarrow>
            if is_vulnerable_to_sql_injection r payload then
              (case add_vulnerability E ''sql_injection'' url (sql_details fm payload) s1 of
                 Inl e \<Rightarrow> s1
               | Inr s2 \<Rightarrow> s2)
            else s1
        | (s1, Raises e) \<Rightarrow> s1)"

definition map_raw_vulns :: "string \<Rightarrow> raw_vuln list \<Rightarrow> (string \<times> string \<times> details) list" where
  "map_raw_vulns url vulns = map (\<lambda>v. (rv_type v, url, rv_details v)) vulns"

text \<open>The insecure-design block of \<open>_scan_form\<close>; every exception is caught and logged.\<close>

definition form_insecure_design :: "env \<Rightarrow> form \<Rightarrow> string \<Rightarrow> scanner \<Rightarrow> scanner" where
  "form_insecure_design E fm url s =
     (if HAS_OWASP_SCANNERS E \<and> scan_insecure_design (config E) then
        (case (if prefix ''http'' (action fm) then Inr (action fm) else urljoin E url (action fm)) of
           Inl e \<Rightarrow> s
         | Inr form_url \<Rightarrow>
             (case send E (page_request form_url) s of
                (s1, Raises e) \<Rightarrow> s1
              | (s1, Response form_response) \<Rightarrow>
                  (case check_insecure_design E url fm form_response of
                     Inl e \<Rightarrow> s1
                   | Inr vulns \<Rightarrow> fst (add_vulnerabilities E (map_raw_vulns url vulns) s1))))
      else s)"

text \<open>
  The details of an XSS finding, from the dictionary that \<open>get_xss_details\<close> returns; a
  missing key raises \<open>KeyError\<close>.  \<open>xss_scanner.py\<close> is part of the repository, so the
  fallbacks for a failed import are not modelled.
\<close>

definition xss_finding_details :: "form \<Rightarrow> string \<Rightarrow> details \<Rightarrow> py_error + details" where
  "xss_finding_details fm payload xd =
     (case (map_of xd ''description'', map_of xd ''severity'', map_of xd ''recommendation'',
            map_of xd ''consequences'') of
        (Some d, Some sv, Some rc, Some cq) \<Rightarrow>
          Inr ([(''form'', FormVal fm),
                (''payload'', Str payload),
                (''method'', Str (form_method fm)),
                (''input_field'', Str (input_name (last (inputs fm)))),
                (''description'', d),
                (''severity'', sv),
                (''recommendation'', rc),
                (''consequences'', cq)]
               @ (case map_of xd ''parameter'' of Some p \<Rightarrow> [(''parameter'', p)] | None \<Rightarrow> [])
               @ (case map_of xd ''xss_type'' of Some t \<Rightarrow> [(''xss_type'', t)] | None \<Rightarrow> []))
      | _ \<Rightarrow> Inl OtherError)"

text \<open>
  The XSS loop of \<open>_scan_form\<close>.  It leaves the loop (\<open>break\<close>) after the first finding it
  has added; an exception in an iteration is caught and the loop goes on.
\<close>

fun test_xss :: "env \<Rightarrow> form \<Rightarrow> string \<Rightarrow> string list \<Rightarrow> scanner \<Rightarrow> scanner" where
  "test_xss E fm url [] s = s"
| "test_xss E fm url (payload # rest) s =
     (case form_request E fm (build_data (inputs fm) payload Map.empty) s of
        (s1, Raises e) \<Rightarrow> test_xss E fm url rest s1
      | (s1, Response r) \<Rightarrow>
          (case is_vulnerable_to_xss E r payload of
             Inl e \<Rightarrow> test_xss E fm url rest s1
           | Inr vulnerable \<Rightarrow>
               if \<not> vulnerable then test_xss E fm url rest s1
               else
                 (case get_xss_details E r payload (input_name (last (inputs fm))) of
                    Inl e \<Rightarrow> test_xss E fm url rest s1
                  | Inr xd \<Rightarrow>
                      (case xss_finding_details fm payload xd of
                         Inl e \<Rightarrow> test_xss E fm url rest s1
                       | Inr det \<Rightarrow>
                           (case add_vulnerability E ''xss'' url det s1 of
                              Inl e \<Rightarrow> test_xss E fm url rest s1
                            | Inr s2 \<Rightarrow> s2)))))"

text \<open>\<open>Scanner._scan_form\<close>\<close>

definition scan_form :: "env \<Rightarrow> form \<Rightarrow> string \<Rightarrow> scanner \<Rightarrow> scanner" where
  "scan_form E fm url s =
     (if inputs fm = [] then s
      else test_xss E fm url (XSS_PAYLOADS E)
             (form_insecure_design E fm url
                (test_sql_injection E fm url (sql_payloads (config E)) s)))"

subsection \<open>Scanning a page\<close>

text \<open>
  \<open>Scanner._scan_url_params_for_xss\<close>: the findings are added one by one; an exception
  of the parameter scanner leaves through \<open>_scan_url\<close>.
\<close>

definition scan_url_params_for_xss :: "env \<Rightarrow> string \<Rightarrow> scanner \<Rightarrow> raising" where
  "scan_url_params_for_xss E url s =
     (case scan_url_parameters E url of
        (ds, exc) \<Rightarrow>
          (case add_vulnerabilities E (map (\<lambda>d. (''reflected_xss'', url, d)) ds) s of
             (s1, Some e) \<Rightarrow> (s1, Some e)
           | (s1, None) \<Rightarrow> (s1, exc)))"

fun scan_forms_loop :: "env \<Rightarrow> string \<Rightarrow> form list \<Rightarrow> scanner \<Rightarrow> scanner" where
  "scan_forms_loop E url [] s = s"
| "scan_forms_loop E url (fm # rest) s =
     scan_forms_loop E url rest
       (scan_form E fm url
          (s \<lparr> scanned_forms := scanned_forms s @
                 [\<lparr> fd_url = url, fd_action = action fm, fd_method = form_method fm,
                    fd_inputs = inputs fm \<rparr>] \<rparr>))"

text \<open>The part of the \<open>try\<close> block of \<open>_scan_url\<close> between the error check and the links.\<close>

definition scan_page_before_links :: "env \<Rightarrow> string \<Rightarrow> response \<Rightarrow> scanner \<Rightarrow> raising" where
  "scan_page_before_links E url r s =
     (case (if scan_xss (config E) then scan_url_params_for_xss E url s else (s, None)) of
        (s1, Some e) \<Rightarrow> (s1, Some e)
      | (s1, None) \<Rightarrow>
          if scan_forms (config E) then
            (case extract_forms E (body_text r) url of
               Inl e \<Rightarrow> (s1, Some e)
             | Inr forms \<Rightarrow> (scan_forms_loop E url forms s1, None))
          else (s1, None))"

definition py_replace_char :: "char \<Rightarrow> char \<Rightarrow> string \<Rightarrow> string" where
  "py_replace_char a b s = map (\<lambda>c. if c = a then b else c) s"

definition missing_header_type :: "string \<Rightarrow> string" where
  "missing_header_type header = ''missing_'' @ py_replace_char CHR ''-'' CHR ''_'' (py_lower header)"

definition missing_header_details :: "string \<Rightarrow> header_info \<Rightarrow> details" where
  "missing_header_details header info =
     [(''description'', Str (''Missing '' @ header @ '': '' @ header_description info)),
      (''recommendation'', Str (''Implement the '' @ header @ '' header to improve security'')),
      (''severity'', Str ''Medium''),
      (''header_name'', Str header),
      (''header_description'', Str (header_description info)),
      (''consequences'', Str (header_consequences info))]"

text \<open>The security-header block of \<open>_scan_url\<close>.\<close>

definition check_security_headers :: "env \<Rightarrow> string \<Rightarrow> response \<Rightarrow> scanner \<Rightarrow> raising" where
  "check_security_headers E url r s =
     (if scan_headers (config E) then
        add_vulnerabilities E
          (map (\<lambda>(header, info). (missing_header_type header, url, missing_header_details header info))
               (missing (extract_headers r))) s
      else (s, None))"

text \<open>
  The checks A02 to A10 that \<open>_scan_url\<close> runs on a page, in the order of the source,
  each with its configuration switch.
\<close>

definition page_checks :: "env \<Rightarrow> (bool \<times> (string \<Rightarrow> response \<Rightarrow> py_error + raw_vuln list)) list" where
  "page_checks E =
     [(scan_crypto_failures (config E), check_cryptographic_failures E),
      (scan_security_misconfigurations (config E), check_security_misconfiguration E),
      (scan_vulnerable_components (config E), check_vulnerable_components E),
      (scan_auth_failures (config E), check_authentication_failures E),
      (scan_integrity_failures (config E), check_integrity_failures E),
      (scan_logging_monitoring (config E), check_logging_monitoring E),
      (scan_ssrf (config E), check_ssrf E)]"

fun run_page_checks ::
  "env \<Rightarrow> string \<Rightarrow> response \<Rightarrow> (bool \<times> (string \<Rightarrow> response \<Rightarrow> py_error + raw_vuln list)) list \<Rightarrow>
   scanner \<Rightarrow> raising" where
  "run_page_checks E url r [] s = (s, None)"
| "run_page_checks E url r ((enabled, check) # rest) s =
     (if HAS_OWASP_SCANNERS E \<and> enabled then
        (case check url r of
           Inl e \<Rightarrow> (s, Some e)
         | Inr vulns \<Rightarrow>
             (case add_vulnerabilities E (map_raw_vulns url vulns) s of
                (s1, Some e) \<Rightarrow> (s1, Some e)
              | (s1, None) \<Rightarrow> run_page_checks E url r rest s1))
      else run_page_checks E url r rest s)"

text \<open>The part of the \<open>try\<close> block of \<open>_scan_url\<close> after the loop over the links.\<close>

definition scan_page_after_links :: "env \<Rightarrow> string \<Rightarrow> response \<Rightarrow> scanner \<Rightarrow> raising" where
  "scan_page_after_links E url r s =
     (case check_security_headers E url r s of
        (s1, Some e) \<Rightarrow> (s1, Some e)
      | (s1, None) \<Rightarrow>
          (case run_page_checks E url r (page_checks E) s1 of
             (s2, Some e) \<Rightarrow> (s2, Some e)
           | (s2, None) \<Rightarrow>
               (if rate_limit (config E) > 0 then s2 \<lparr> events := events s2 @ [SleepRateLimit] \<rparr> else s2,
                None)))"

text \<open>
  The beginning of the \<open>try\<close> block of \<open>_scan_url\<close>, up to the extraction of the links:
  either the block is left (by \<open>return\<close> or by an exception), or the page and its links
  are there.
\<close>

datatype page_status = Stop "py_error option" | Page response "string list"

definition fetch_page :: "env \<Rightarrow> string \<Rightarrow> scanner \<Rightarrow> scanner \<times> page_status" where
  "fetch_page E url s =
     (case make_request E url s of
        (s2, Inl e) \<Rightarrow> (s2, Stop (Some e))
      | (s2, Inr None) \<Rightarrow> (s2, Stop None)
      | (s2, Inr (Some r)) \<Rightarrow>
          (let s3 = s2 \<lparr> stats := add_response (status_code r) (elapsed r) (stats s2) \<rparr>
           in if is_error_response r
              then (s3 \<lparr> stats := add_error (get_error_type r) (stats s3) \<rparr>, Stop None)
              else
                (case scan_page_before_links E url r s3 of
                   (s4, Some e) \<Rightarrow> (s4, Stop (Some e))
                 | (s4, None) \<Rightarrow>
                     if scan_links (config E) then
                       (case extract_links E (body_text r) url of
                          Inl e \<Rightarrow> (s4, Stop (Some e))
                        | Inr links \<Rightarrow> (s4, Page r links))
                     else (s4, Page r []))))"

text \<open>The handler \<open>except Exception\<close> of \<open>_scan_url\<close>.\<close>

definition except_request_error :: "raising \<Rightarrow> raising" where
  "except_request_error res =
     (case res of
        (s, None) \<Rightarrow> (s, None)
      | (s, Some e) \<Rightarrow> (s \<lparr> stats := add_error ''request_error'' (stats s) \<rparr>, None))"

text \<open>
  \<open>Scanner._scan_url\<close> and its loop over the links of a page.  \<open>normalize_url\<close> is called
  outside the \<open>try\<close> block: its exception leaves the function, and is caught by the
  handler of the page whose link was being followed.
\<close>

function scan_url :: "env \<Rightarrow> string \<Rightarrow> int \<Rightarrow> scanner \<Rightarrow> raising"
  and scan_links_loop :: "env \<Rightarrow> string \<Rightarrow> string list \<Rightarrow> int \<Rightarrow> scanner \<Rightarrow> raising" where
  "scan_url E url0 depth s =
     (if depth > max_depth (config E) then (s, None)
      else if int (fcard (visited_urls s)) \<ge> max_pages (config E) then (s, None)
      else
        (case normalize_url (lib E) url0 of
           Inl e \<Rightarrow> (s, Some e)
         | Inr url \<Rightarrow>
             if url |\<in>| visited_urls s then (s, None)
             else
               (case fetch_page E url
                       (s \<lparr> visited_urls := finsert url (visited_urls s),
                            stats := add_url url (stats s) \<rparr>) of
                  (s4, Stop exc) \<Rightarrow> except_request_error (s4, exc)
                | (s4, Page r links) \<Rightarrow>
                    (case scan_links_loop E url links depth s4 of
                       (s5, Some e) \<Rightarrow> except_request_error (s5, Some e)
                     | (s5, None) \<Rightarrow> except_request_error (scan_page_after_links E url r s5)))))"
| "scan_links_loop E url [] depth s = (s, None)"
| "scan_links_loop E url (link # rest) depth s =
     (let s1 = s \<lparr> scanned_links := scanned_links s @ [\<lparr> source_url = url, target_url = link \<rparr>] \<rparr>
      in case is_same_domain (lib E) link url of
           Inl e \<Rightarrow> (s1, Some e)
         | Inr same \<Rightarrow>
             if same then
               (case scan_url E link (depth + 1) s1 of
                  (s2, Some e) \<Rightarrow> (s2, Some e)
                | (s2, None) \<Rightarrow> scan_links_loop E url rest depth s2)
             else scan_links_loop E url rest depth s1)"
  by pat_completeness auto

termination
proof (relation "measures
    [\<lambda>x. case x of
           Inl (E, url, depth, s) \<Rightarrow> nat (max_depth (config E) + 1 - depth)
         | Inr (E, url, links, depth, s) \<Rightarrow> nat (max_depth (config E) - depth),
     \<lambda>x. case x of
           Inl (E, url, depth, s) \<Rightarrow> 0
         | Inr (E, url, links, depth, s) \<Rightarrow> Suc (length links)]")
qed auto

declare scan_url.simps [simp del]

subsection \<open>Starting a scan\<close>

text \<open>The four assignments at the beginning of \<open>start_scan\<close>, and the scan identifier.\<close>

definition reset_scan :: "env \<Rightarrow> string option \<Rightarrow> scanner \<Rightarrow> scanner" where
  "reset_scan E scan_id_arg s =
     s \<lparr> stats := ScanStats_init,
         vulnerabilities := [],
         scanned_links := [],
         scanned_forms := [],
         scan_id := Some (case scan_id_arg of
                            None \<Rightarrow> fresh_uuid E
                          | Some i \<Rightarrow> if i \<noteq> [] then i else fresh_uuid E) \<rparr>"

text \<open>\<open>Scanner._check_broken_access_control\<close>; every exception is caught and logged.\<close>

definition check_broken_access_control :: "env \<Rightarrow> string \<Rightarrow> scanner \<Rightarrow> scanner" where
  "check_broken_access_control E start_url s =
     (if \<not> HAS_OWASP_SCANNERS E \<or> \<not> scan_broken_access (config E) then s
      else
        (case check_access_control E start_url of
           Inl e \<Rightarrow> s
         | Inr vulns \<Rightarrow>
             fst (add_vulnerabilities E (map (\<lambda>v. (rv_type v, rv_url v, rv_details v)) vulns) s)))"

text \<open>
  \<open>Scanner.start_scan\<close>, up to the end of the crawl.  Saving the results and logging are
  outside the model.  An exception of the crawl is raised again.
\<close>

definition start_scan :: "env \<Rightarrow> string \<Rightarrow> string option \<Rightarrow> scanner \<Rightarrow> raising" where
  "start_scan E start_url scan_id_arg s =
     scan_url E start_url 0
       (check_broken_access_control E start_url (reset_scan E scan_id_arg s))"

text \<open>The \<open>scanned_urls\<close> entry of \<open>Scanner.get_results\<close> is the visited set.\<close>

definition result_scanned_urls :: "scanner \<Rightarrow> string fset" where
  "result_scanned_urls s = visited_urls s"

section \<open>The SQL injection scanner (scanner/sqli.py)\<close>

record sqli_payload =
  payload_name :: string
  payload_text :: string
  expected_result :: "string option"

text \<open>The default payloads of \<open>SQLiScanner._load_payloads\<close>.\<close>

definition default_sqli_payloads :: "sqli_payload list" where
  "default_sqli_payloads =
     [\<lparr> payload_name = ''Login Bypass'', payload_text = ''' OR '1'='1'', expected_result = Some ''Welcome'' \<rparr>,
      \<lparr> payload_name = ''Union Based'', payload_text = ''' UNION SELECT 1,2,3--'', expected_result = Some ''2'' \<rparr>,
      \<lparr> payload_name = ''Error Based'', payload_text = ''' OR 1=1--'', expected_result = Some ''Welcome'' \<rparr>,
      \<lparr> payload_name = ''Boolean Based'', payload_text = ''' OR 1=1#'', expected_result = Some ''Welcome'' \<rparr>,
      \<lparr> payload_name = ''Time Based'', payload_text = ''' OR (SELECT COUNT(*) FROM users) > 0--'', expected_result = Some ''Welcome'' \<rparr>]"

definition error_patterns :: "string list" where
  "error_patterns =
     [''SQL syntax'', ''mysql_fetch_array'', ''mysql_fetch'', ''mysql_num_rows'', ''mysql_result'',
      ''mysql_query'', ''mysql error'', ''ORA-'', ''SQLite/JDBCDriver'', ''SQLite.Exception'',
      ''System.Data.SQLite.SQLiteException'', ''Warning: mysql_'', ''PostgreSQL.*ERROR'',
      ''Warning.*pg_'', ''valid PostgreSQL result'', ''Npgsql.'', ''Microsoft SQL Server'',
      ''ODBC SQL Server Driver'', ''SQLServer JDBC Driver'',
      ''com.microsoft.sqlserver.jdbc.SQLServerException'', ''SQLServerException'',
      ''Error Occurred While Processing Request'', ''Server Error in '/' Application'',
      ''Unclosed quotation mark after the character string'',
      ''Microsoft OLE DB Provider for SQL Server'', ''SQLServer JDBC Driver'',
      ''SQLServerException'', ''System.Data.SqlClient.SqlException'',
      ''Unclosed quotation mark after the character string'']"

definition check_sql_error :: "string \<Rightarrow> bool" where
  "check_sql_error response_text =
     list_ex (\<lambda>pattern. py_in (py_lower pattern) (py_lower response_text)) error_patterns"

text \<open>
  The detection chain of \<open>test_get_parameter\<close> for one response: the name of the first
  method that fires, if any.
\<close>

definition detect :: "sqli_payload \<Rightarrow> string \<Rightarrow> response \<Rightarrow> string option" where
  "detect payload baseline r =
     (if check_sql_error (body_text r) then Some ''Error based''
      else if (case expected_result payload of
                 None \<Rightarrow> False
               | Some e \<Rightarrow> e \<noteq> [] \<and> py_in e (body_text r)) then Some ''Result based''
      else if \<bar>int (length (body_text r)) - int (length baseline)\<bar> > 100 then Some ''Length based''
      else if float_lt (Finite 2) (elapsed r) then Some ''Time based''
      else None)"

record sqli_hit =
  hit_name :: string
  hit_payload :: string
  detection_method :: string
  response_length :: nat

record sqli_results =
  res_url :: string
  res_parameter :: string
  res_method :: string
  vulnerable :: bool
  res_payloads :: "sqli_hit list"

text \<open>
  The session and \<open>parse_qs\<close> are outside \<open>sqli.py\<close>.  The session answers a GET depending
  on the number of requests sent so far; \<open>parse_qs\<close> gives the parameters of a query
  string in their order, each with the non-empty list of its values.
\<close>

record sqli_env =
  sqli_lib :: urllib
  session_get :: "nat \<Rightarrow> string \<Rightarrow> http_result"
  parse_qs :: "string \<Rightarrow> (string \<times> string list) list"
  payloads :: "sqli_payload list"

text \<open>\<open>params[param] = [value]\<close> on a dictionary kept as the list of its items.\<close>

fun dict_set :: "(string \<times> 'v) list \<Rightarrow> string \<Rightarrow> 'v \<Rightarrow> (string \<times> 'v) list" where
  "dict_set [] k v = [(k, v)]"
| "dict_set ((k', v') # rest) k v =
     (if k' = k then (k, v) # rest else (k', v') # dict_set rest k v)"

text \<open>\<open>"&".join(parts)\<close>\<close>

fun join_amp :: "string list \<Rightarrow> string" where
  "join_amp [] = []"
| "join_amp [p] = p"
| "join_amp (p # q # rest) = p @ ''&'' @ join_amp (q # rest)"

text \<open>
  The parameters that a test request carries for one payload, and its URL.  \<open>v[0]\<close>
  raises \<open>IndexError\<close> on an empty list of values.
\<close>

definition test_params :: "sqli_env \<Rightarrow> parse_result \<Rightarrow> string \<Rightarrow> string \<Rightarrow> (string \<times> string list) list" where
  "test_params SE parsed_url param payload = dict_set (parse_qs SE (query parsed_url)) param [payload]"

definition test_url :: "sqli_env \<Rightarrow> string \<Rightarrow> string \<Rightarrow> string \<Rightarrow> py_error + string" where
  "test_url SE url param payload =
     (case urlparse (sqli_lib SE) url of
        Inl e \<Rightarrow> Inl e
      | Inr parsed_url \<Rightarrow>
          (let ps = test_params SE parsed_url param payload
           in if list_ex (\<lambda>(k, v). v = []) ps then Inl OtherError
              else Inr (scheme parsed_url @ ''://'' @ netloc parsed_url @ path parsed_url @ ''?'' @
                        join_amp (map (\<lambda>(k, v). k @ ''='' @ hd v) ps))))"

text \<open>
  The state of one \<open>test_get_parameter\<close> call: the URLs requested so far (not part of
  the source) and the \<open>results\<close> dictionary.
\<close>

record sqli_state =
  requested :: "string list"
  results :: sqli_results

definition sqli_get :: "sqli_env \<Rightarrow> string \<Rightarrow> sqli_state \<Rightarrow> sqli_state \<times> http_result" where
  "sqli_get SE url st =
     (st \<lparr> requested := requested st @ [url] \<rparr>, session_get SE (length (requested st)) url)"

text \<open>
  The loop over the payloads.  An exception in an iteration is caught and the loop
  continues with the next payload; the loop has no \<open>break\<close>.
\<close>

fun test_get_loop :: "sqli_env \<Rightarrow> string \<Rightarrow> string \<Rightarrow> string \<Rightarrow> sqli_payload list \<Rightarrow> sqli_state \<Rightarrow> sqli_state" where
  "test_get_loop SE url param baseline [] st = st"
| "test_get_loop SE url param baseline (payload # rest) st =
     test_get_loop SE url param baseline rest
       (case test_url SE url param (payload_text payload) of
          Inl e \<Rightarrow> st
        | Inr turl \<Rightarrow>
            (case sqli_get SE turl st of
               (st1, Raises e) \<Rightarrow> st1
             | (st1, Response r) \<Rightarrow>
                 (case detect payload baseline r of
                    None \<Rightarrow> st1
                  | Some m \<Rightarrow>
                      st1 \<lparr> results := (results st1)
                              \<lparr> vulnerable := True,
                                res_payloads := res_payloads (results st1) @
                                  [\<lparr> hit_name = payload_name payload,
                                     hit_payload = payload_text payload,
                                     detection_method = m,
                                     response_length = length (body_text r) \<rparr>] \<rparr> \<rparr>)))"

text \<open>
  \<open>SQLiScanner.test_get_parameter\<close>.  The baseline is the body of a plain GET, or the
  empty string when that request raises; with an empty baseline nothing is tested.
\<close>

definition test_get_parameter :: "sqli_env \<Rightarrow> string \<Rightarrow> string \<Rightarrow> string \<Rightarrow> sqli_state" where
  "test_get_parameter SE url param val =
     (let st0 = \<lparr> requested = [],
                  results = \<lparr> res_url = url, res_parameter = param, res_method = ''GET'',
                              vulnerable = False, res_payloads = [] \<rparr> \<rparr>
      in case sqli_get SE url st0 of
           (st1, Raises e) \<Rightarrow> st1
         | (st1, Response r) \<Rightarrow>
             if body_text r = [] then st1
             else test_get_loop SE url param (body_text r) (payloads SE) st1)"


section \<open>The threaded crawler (scanner/crawler.py)\<close>

text \<open>
  \<open>WebCrawler\<close> runs \<open>max_threads\<close> workers on one queue and one \<open>visited\<close> set, without a
  lock around the set.  A worker is modelled by the statement it is about to execute;
  one step executes that statement.  The statements are those of \<open>_crawl_worker\<close> and
  \<open>_process_url\<close> that touch the shared state:
  \<^item> \<open>url = self.queue.get()\<close> (it blocks while the queue is empty);
  \<^item> \<open>if url not in self.visited\<close> in \<open>_crawl_worker\<close>;
  \<^item> \<open>if url in self.visited: return\<close> in \<open>_process_url\<close>;
  \<^item> \<open>self.visited.add(url)\<close>;
  \<^item> \<open>self.session.get(url)\<close> and the rest of \<open>_process_url\<close>, which queues the links;
  \<^item> \<open>self.queue.task_done()\<close>.
\<close>

datatype worker =
    AtQueueGet
  | AtWorkerCheck string
  | AtProcessCheck string
  | AtVisitedAdd string
  | AtSessionGet string
  | AtTaskDone

record crawler =
  visited :: "string set"
  queue :: "string list"
  links :: "string list"
  fetched :: "string list"
  workers :: "worker list"

text \<open>
  The links of a page: for a URL, the in-scope anchors that \<open>_process_url\<close> finds in the
  answer, in document order (none when the request fails or the answer is not HTML).
  The loop over them queues each link that is not in \<open>visited\<close> at that moment.
\<close>

fun queue_links :: "string list \<Rightarrow> crawler \<Rightarrow> crawler" where
  "queue_links [] c = c"
| "queue_links (link # rest) c =
     queue_links rest
       (if link \<notin> visited c then c \<lparr> links := links c @ [link], queue := queue c @ [link] \<rparr> else c)"

definition WebCrawler_init :: "string \<Rightarrow> nat \<Rightarrow> crawler" where
  "WebCrawler_init base_url max_threads =
     \<lparr> visited = {}, queue = [base_url], links = [], fetched = [],
       workers = replicate max_threads AtQueueGet \<rparr>"

text \<open>One step of worker \<open>i\<close>.  A worker that cannot move leaves the state as it is.\<close>

definition step :: "(string \<Rightarrow> string list) \<Rightarrow> nat \<Rightarrow> crawler \<Rightarrow> crawler" where
  "step page_links i c =
     (if i < length (workers c) then
        (case workers c ! i of
           AtQueueGet \<Rightarrow>
             (case queue c of
                [] \<Rightarrow> c
              | url # rest \<Rightarrow> c \<lparr> queue := rest, workers := (workers c)[i := AtWorkerCheck url] \<rparr>)
         | AtWorkerCheck url \<Rightarrow>
             (if url \<notin> visited c then c \<lparr> workers := (workers c)[i := AtProcessCheck url] \<rparr>
              else c \<lparr> workers := (workers c)[i := AtTaskDone] \<rparr>)
         | AtProcessCheck url \<Rightarrow>
             (if url \<in> visited c then c \<lparr> workers := (workers c)[i := AtTaskDone] \<rparr>
              else c \<lparr> workers := (workers c)[i := AtVisitedAdd url] \<rparr>)
         | AtVisitedAdd url \<Rightarrow>
             c \<lparr> visited := insert url (visited c), workers := (workers c)[i := AtSessionGet url] \<rparr>
         | AtSessionGet url \<Rightarrow>
             queue_links (page_links url)
               (c \<lparr> fetched := fetched c @ [url], workers := (workers c)[i := AtTaskDone] \<rparr>)
         | AtTaskDone \<Rightarrow> c \<lparr> workers := (workers c)[i := AtQueueGet] \<rparr>)
      else c)"

text \<open>A schedule names the worker that moves at each step.\<close>

definition run_schedule :: "(string \<Rightarrow> string list) \<Rightarrow> nat list \<Rightarrow> crawler \<Rightarrow> crawler" where
  "run_schedule page_links schedule c = foldl (\<lambda>c i. step page_links i c) c schedule"

section \<open>Notions used in the statements\<close>

text \<open>
  The part of a scanner's state that records the crawl: the visited set, the recorded
  links, and the list and the count of scanned URLs in the statistics.
\<close>

definition crawl_view :: "scanner \<Rightarrow> string fset \<times> link_data list \<times> string list \<times> nat" where
  "crawl_view s = (visited_urls s, scanned_links s, scanned_urls (stats s), total_urls_scanned (stats s))"

text \<open>A float that is a number: neither an infinity nor NaN.\<close>

definition finite_float :: "pyfloat \<Rightarrow> bool" where
  "finite_float x = (case x of Finite q \<Rightarrow> True | _ \<Rightarrow> False)"

text \<open>
  A site whose start page has two anchors to the same page, and a schedule of two
  workers: worker 0 crawls the start page alone, then both workers take one of the two
  queued copies of the link and move in turns.
\<close>

definition race_links :: "string \<Rightarrow> string list" where
  "race_links url = (if url = ''http://a.com/'' then [''http://a.com/x'', ''http://a.com/x''] else [])"

definition race_schedule :: "nat list" where
  "race_schedule = [0, 0, 0, 0, 0, 0, 0, 1, 0, 1, 0, 1, 0, 1, 0, 1]"



text \<open>
  What a crawl adds to the state \<open>s\<close> on the way to \<open>s'\<close>: the URLs \<open>new\<close>, in the order
  of their visits, each of them new to the visited set, and the links \<open>ls\<close>; the visited
  set grows to at most \<open>max_pages\<close> elements, unless it was larger before.
\<close>

definition crawled :: "env \<Rightarrow> scanner \<Rightarrow> scanner \<Rightarrow> string list \<Rightarrow> link_data list \<Rightarrow> bool" where
  "crawled E s s' new ls \<longleftrightarrow>
     fset (visited_urls s') = fset (visited_urls s) \<union> set new \<and>
     scanned_urls (stats s') = scanned_urls (stats s) @ new \<and>
     total_urls_scanned (stats s') = total_urls_scanned (stats s) + length new \<and>
     scanned_links s' = scanned_links s @ ls \<and>
     distinct new \<and> set new \<inter> fset (visited_urls s) = {} \<and>
     int (fcard (visited_urls s')) \<le> max (int (fcard (visited_urls s))) (max_pages (config E))"

text \<open>The visits alone: the visited set, and the list and the count of scanned URLs.\<close>

definition visit_view :: "scanner \<Rightarrow> string fset \<times> string list \<times> nat" where
  "visit_view s = (visited_urls s, scanned_urls (stats s), total_urls_scanned (stats s))"

text \<open>
  A recorded link is in scope when its target is a valid URL whose \<open>scheme://netloc\<close> is
  that of the page it was found on; \<open>url_ok\<close> is the same for a link that is not recorded
  yet.
\<close>

definition link_ok :: "env \<Rightarrow> link_data \<Rightarrow> bool" where
  "link_ok E l \<longleftrightarrow> is_valid_url (lib E) (target_url l) \<and>
     is_same_domain (lib E) (target_url l) (source_url l) = Inr True"

definition url_ok :: "env \<Rightarrow> string \<Rightarrow> string \<Rightarrow> bool" where
  "url_ok E page l \<longleftrightarrow> is_valid_url (lib E) l \<and> is_same_domain (lib E) l page = Inr True"

text \<open>
  The scheme that \<open>urlsplit\<close> finds: ASCII letters, digits, \<open>+\<close>, \<open>-\<close> and \<open>.\<close>, in lower
  case, starting with a letter.  A string is \<open>safe\<close> when it has none of the characters
  that \<open>urlsplit\<close> removes.
\<close>

definition scheme_ok :: "string \<Rightarrow> bool" where
  "scheme_ok sch \<longleftrightarrow> sch \<noteq> [] \<and> is_ascii_alpha (hd sch) \<and> \<not> is_c0_control_or_space (hd sch) \<and>
     list_all is_scheme_char sch \<and> py_lower sch = sch \<and> CHR '':'' \<notin> set sch \<and>
     list_all (\<lambda>c. \<not> is_unsafe_url_byte c) sch"

definition safe :: "string \<Rightarrow> bool" where
  "safe s \<longleftrightarrow> list_all (\<lambda>c. \<not> is_unsafe_url_byte c) s"

text \<open>The requests of the two payload loops of \<open>_scan_form\<close>, one for each payload.\<close>

definition payload_request :: "form \<Rightarrow> string \<Rightarrow> http_request" where
  "payload_request fm payload =
     \<lparr> req_method = (if form_method fm = ''get'' then ''GET'' else ''POST''),
       req_url = action fm,
       req_data = build_data (inputs fm) payload Map.empty \<rparr>"

text \<open>The names of the inputs of a form that are not buttons.\<close>

definition payload_fields :: "input_field list \<Rightarrow> string set" where
  "payload_fields ins =
     input_name ` {i \<in> set ins. input_type i \<notin> set [''submit'', ''button'', ''image'']}"


subsection \<open>Example sites\<close>

text \<open>
  The defaults of \<open>ScannerConfig\<close>, with the fallback SQL payloads of \<open>load_payloads\<close>.
\<close>

definition default_config :: config where
  "default_config = \<lparr>
     max_depth = 3, max_pages = 100, max_retries = 3, rate_limit = 0,
     scan_forms = True, scan_links = True, scan_headers = True, scan_xss = True,
     scan_broken_access = True, scan_crypto_failures = True, scan_insecure_design = True,
     scan_security_misconfigurations = True, scan_vulnerable_components = True,
     scan_auth_failures = True, scan_integrity_failures = True, scan_logging_monitoring = True,
     scan_ssrf = True,
     sql_payloads = [''' OR 1=1--'', ''' OR 1=1#'', ''' OR 1=1/*''] \<rparr>"

text \<open>A configuration that only follows links.\<close>

definition links_only_config :: config where
  "links_only_config = default_config \<lparr> scan_forms := False, scan_headers := False, scan_xss := False \<rparr>"

text \<open>
  An environment for a configuration, a network and an HTML parser: the OWASP modules are
  not installed, pages have no forms and no URL parameters that reflect, and \<open>urljoin\<close>
  is only given absolute URLs.
\<close>

definition example_env ::
  "config \<Rightarrow> (nat \<Rightarrow> http_request \<Rightarrow> http_result) \<Rightarrow> (string \<Rightarrow> link_tag list) \<Rightarrow> env" where
  "example_env c net tags = \<lparr>
     config = c,
     lib = \<lparr> bracketed_host_ok = (\<lambda>h. True), nfkc_netloc_ok = (\<lambda>n. True) \<rparr>,
     HAS_OWASP_SCANNERS = False,
     fresh_uuid = ''c0ffee00-0000-4000-8000-000000000000'',
     http = net,
     soup_link_tags = tags,
     urljoin = (\<lambda>base u. Inr u),
     extract_forms = (\<lambda>html u. Inr []),
     scan_url_parameters = (\<lambda>u. ([], None)),
     is_vulnerable_to_xss = (\<lambda>r p. Inr False),
     get_xss_details = (\<lambda>r p f. Inr []),
     XSS_PAYLOADS = [],
     check_insecure_design = (\<lambda>u fm r. Inr []),
     check_access_control = (\<lambda>u. Inr []),
     check_cryptographic_failures = (\<lambda>u r. Inr []),
     check_security_misconfiguration = (\<lambda>u r. Inr []),
     check_vulnerable_components = (\<lambda>u r. Inr []),
     check_authentication_failures = (\<lambda>u r. Inr []),
     check_integrity_failures = (\<lambda>u r. Inr []),
     check_logging_monitoring = (\<lambda>u r. Inr []),
     check_ssrf = (\<lambda>u r. Inr []) \<rparr>"

text \<open>A page with a body and no headers, answered at once.\<close>

definition plain_page :: "string \<Rightarrow> response" where
  "plain_page body = \<lparr> status_code = 200, elapsed = Finite 0, headers = [], body_text = body \<rparr>"

text \<open>A host that refuses every connection.\<close>

definition site_down :: "nat \<Rightarrow> http_request \<Rightarrow> http_result" where
  "site_down n req = Raises RequestError"

definition down_env :: env where
  "down_env = example_env links_only_config site_down (\<lambda>html. [])"

text \<open>
  A site with a start page \<open>home\<close> that has two anchors, one to another site and one to
  its own page \<open>/x\<close>, which has no anchors.
\<close>

definition shop_site :: "nat \<Rightarrow> http_request \<Rightarrow> http_result" where
  "shop_site n req =
     Response (plain_page (if req_url req = ''http://a.com/'' then ''home'' else ''leaf''))"

definition shop_tags :: "string \<Rightarrow> link_tag list" where
  "shop_tags html =
     (if html = ''home''
      then [\<lparr> href = Some ''http://b.com/'', src = None \<rparr>,
            \<lparr> href = Some ''http://a.com/x'', src = None \<rparr>]
      else [])"

definition shop_env :: env where
  "shop_env = example_env links_only_config shop_site shop_tags"

text \<open>The same site, crawled with \<open>max_depth = 0\<close>, and with \<open>max_pages = 0\<close> as well.\<close>

definition seed_only_env :: env where
  "seed_only_env = example_env (links_only_config \<lparr> max_depth := 0 \<rparr>) shop_site shop_tags"

definition no_pages_env :: env where
  "no_pages_env =
     example_env (links_only_config \<lparr> max_depth := 0, max_pages := 0 \<rparr>) shop_site shop_tags"

text \<open>A login form with two text inputs and a button.\<close>

definition login_form :: form where
  "login_form = \<lparr>
     action = ''http://a.com/login'', form_method = ''post'',
     inputs = [\<lparr> input_type = ''text'', input_name = ''user'', input_value = [] \<rparr>,
               \<lparr> input_type = ''password'', input_name = ''pass'', input_value = [] \<rparr>,
               \<lparr> input_type = ''submit'', input_name = ''go'', input_value = ''Login'' \<rparr>] \<rparr>"




text \<open>The float nearest to one tenth of a second.\<close>

definition tenth :: pyfloat where
  "tenth = round64 (1 / 10)"

text \<open>The float nearest to seven tenths of a second.\<close>

definition seven_tenths :: pyfloat where
  "seven_tenths = round64 (7 / 10)"


section \<open>Supporting lemmas\<close>

subsection \<open>Floats and the response-time statistics\<close>

lemma float_le_trans: "float_le a b \<Longrightarrow> float_le b c \<Longrightarrow> float_le a c"
  by (cases a; cases b; cases c; auto simp: float_le_def)

lemma py_min_le: "a \<noteq> NaN \<Longrightarrow> float_le (py_min a (Finite t)) a \<and> float_le (py_min a (Finite t)) (Finite t)"
  by (cases a; auto simp: float_le_def py_min_def)

lemma py_max_ge: "a \<noteq> NaN \<Longrightarrow> float_le a (py_max a (Finite t)) \<and> float_le (Finite t) (py_max a (Finite t))"
  by (cases a; auto simp: float_le_def py_max_def)

lemma py_min_not_nan: "a \<noteq> NaN \<Longrightarrow> py_min a (Finite t) \<noteq> NaN"
  by (auto simp: py_min_def)

lemma py_max_not_nan: "a \<noteq> NaN \<Longrightarrow> py_max a (Finite t) \<noteq> NaN"
  by (auto simp: py_max_def)

lemma record_responses_Cons:
  "record_responses ((code, t) # rs) st = record_responses rs (add_response code t st)"
  by (simp add: record_responses_def)

lemma record_responses_bounds:
  "list_all (\<lambda>r. finite_float (snd r)) rs \<Longrightarrow> min_response_time st \<noteq> NaN \<Longrightarrow> max_response_time st \<noteq> NaN \<Longrightarrow>
   min_response_time (record_responses rs st) \<noteq> NaN \<and> max_response_time (record_responses rs st) \<noteq> NaN \<and>
   float_le (min_response_time (record_responses rs st)) (min_response_time st) \<and>
   float_le (max_response_time st) (max_response_time (record_responses rs st)) \<and>
   list_all (\<lambda>r. float_le (min_response_time (record_responses rs st)) (snd r) \<and>
                  float_le (snd r) (max_response_time (record_responses rs st))) rs"
proof (induction rs arbitrary: st)
  case Nil
  then show ?case by (cases "min_response_time st"; cases "max_response_time st"; simp add: record_responses_def float_le_def)
next
  case (Cons r rs)
  obtain code t where r: "r = (code, t)" by (cases r)
  from Cons.prems r obtain q where t: "t = Finite q" by (cases t; simp add: finite_float_def)
  let ?st1 = "add_response code t st"
  let ?fin = "record_responses rs ?st1"
  have m1: "min_response_time ?st1 = py_min (min_response_time st) (Finite q)"
    and M1: "max_response_time ?st1 = py_max (max_response_time st) (Finite q)"
    by (simp_all add: add_response_def Let_def t)
  have n1: "min_response_time ?st1 \<noteq> NaN" "max_response_time ?st1 \<noteq> NaN"
    using Cons.prems py_min_not_nan py_max_not_nan by (simp_all add: m1 M1)
  have rr: "record_responses (r # rs) st = ?fin"
    by (simp add: record_responses_Cons r)
  from Cons.prems have fin: "list_all (\<lambda>r. finite_float (snd r)) rs" by simp
  note ih = Cons.IH[OF fin n1]
  have a: "float_le (min_response_time ?st1) (min_response_time st)" "float_le (min_response_time ?st1) (Finite q)"
    using py_min_le[of "min_response_time st" q] Cons.prems by (simp_all add: m1)
  have b: "float_le (max_response_time st) (max_response_time ?st1)" "float_le (Finite q) (max_response_time ?st1)"
    using py_max_ge[of "max_response_time st" q] Cons.prems by (simp_all add: M1)
  have c1: "float_le (min_response_time ?fin) (min_response_time st)"
    using ih a(1) float_le_trans by blast
  have c2: "float_le (max_response_time st) (max_response_time ?fin)"
    using ih b(1) float_le_trans by blast
  have c3: "float_le (min_response_time ?fin) (Finite q)"
    using ih a(2) float_le_trans by blast
  have c4: "float_le (Finite q) (max_response_time ?fin)"
    using ih b(2) float_le_trans by blast
  show ?case
    unfolding rr using ih c1 c2 c3 c4 by (simp add: r t)
qed

lemma record_responses_avg:
  "rs \<noteq> [] \<Longrightarrow> avg_response_time (record_responses rs st) =
      float_div_int (total_response_time (record_responses rs st)) (total_requests (record_responses rs st))"
proof (induction rs arbitrary: st)
  case Nil then show ?case by simp
next
  case (Cons r rs)
  obtain code t where r: "r = (code, t)" by (cases r)
  have rr: "record_responses (r # rs) st = record_responses rs (add_response code t st)"
    by (simp add: record_responses_Cons r)
  show ?case
  proof (cases "rs = []")
    case True
    then show ?thesis by (simp add: record_responses_def r add_response_def Let_def)
  next
    case False
    then show ?thesis unfolding rr by (rule Cons.IH)
  qed
qed

lemma record_responses_count:
  "total_requests (record_responses rs st) = total_requests st + length rs"
proof (induction rs arbitrary: st)
  case Nil then show ?case by (simp add: record_responses_def)
next
  case (Cons r rs)
  obtain code t where r: "r = (code, t)" by (cases r)
  show ?case unfolding r record_responses_Cons Cons.IH by (simp add: add_response_def Let_def)
qed

lemma summary_without_responses: "sum_performance (get_summary ScanStats_init) =
   \<lparr> perf_avg_response_time = Finite 0, perf_min_response_time = PInf, perf_max_response_time = Finite 0 \<rparr>"
  by (simp add: get_summary_def ScanStats_init_def)

subsection \<open>Rounding is monotone\<close>

text \<open>
  \<open>pow2 k\<close> is \<open>2\<close> to the power \<open>k\<close>, \<open>bitlen n\<close> is the number of binary digits of \<open>n\<close>,
  and \<open>floor_log2 a\<close> is the exponent of \<open>a\<close>.  With these, rounding to binary64 is
  monotone, and so are the sum and the average that \<open>add_response\<close> computes.
\<close>

lemma pow2_powi: "pow2 k = 2 powi k"
  by (simp add: pow2_def power_int_def inverse_eq_divide power_one_over)

lemma pow2_pos: "0 < pow2 k"
  by (simp add: pow2_powi)

lemma pow2_mono: "i \<le> j \<Longrightarrow> pow2 i \<le> pow2 j"
  by (simp add: pow2_powi power_int_increasing)

lemma pow2_less_imp: "pow2 i < pow2 j \<Longrightarrow> i < j"
  using pow2_mono[of j i] by (cases "i < j") auto

lemma pow2_add: "pow2 (i + j) = pow2 i * pow2 j"
  by (simp add: pow2_powi power_int_add)

lemma pow2_of_nat: "pow2 (int k) = 2 ^ k"
  by (simp add: pow2_def)

lemma pow2_0: "pow2 0 = 1"
  by (simp add: pow2_def)

lemma pow2_1: "pow2 1 = 2"
  by (simp add: pow2_def)

lemma pow2_Suc: "pow2 (i + 1) = 2 * pow2 i"
  by (simp add: pow2_add pow2_1)

lemma pow2_int: "0 \<le> k \<Longrightarrow> pow2 k = of_int (2 ^ nat k)"
  by (simp add: pow2_def)

lemma bitlen_upper: "n < 2 ^ bitlen n"
proof (induction n rule: bitlen.induct)
  case (1 n)
  show ?case
  proof (cases "n = 0")
    case True
    then show ?thesis by (simp add: bitlen.simps)
  next
    case False
    from 1[OF False] have "n div 2 + 1 \<le> 2 ^ bitlen (n div 2)" by simp
    then have "2 * (n div 2) + 2 \<le> 2 * 2 ^ bitlen (n div 2)" by simp
    moreover have "n < 2 * (n div 2) + 2" by arith
    ultimately have "n < 2 * 2 ^ bitlen (n div 2)" by linarith
    then show ?thesis using False by (subst bitlen.simps) simp
  qed
qed

lemma bitlen_lower: "0 < n \<Longrightarrow> 2 ^ bitlen n \<le> 2 * n"
proof (induction n rule: bitlen.induct)
  case (1 n)
  then have n0: "n \<noteq> 0" by simp
  show ?case
  proof (cases "n div 2 = 0")
    case True
    then have "n = 1" using n0 by arith
    then show ?thesis by (simp add: bitlen.simps)
  next
    case False
    then have "2 ^ bitlen (n div 2) \<le> 2 * (n div 2)" using 1(1)[OF n0] by simp
    moreover have "2 * (n div 2) \<le> n" by arith
    ultimately have "2 * 2 ^ bitlen (n div 2) \<le> 2 * n" by linarith
    then show ?thesis using n0 by (subst bitlen.simps) simp
  qed
qed

lemma bitlen_floor:
  assumes "1 \<le> (x::rat)"
  shows "pow2 (int (bitlen (nat \<lfloor>x\<rfloor>)) - 1) \<le> x \<and> x < pow2 (int (bitlen (nat \<lfloor>x\<rfloor>)))"
proof -
  define n where "n = nat \<lfloor>x\<rfloor>"
  define k where "k = bitlen n"
  have f1: "1 \<le> \<lfloor>x\<rfloor>" using assms by linarith
  then have n1: "0 < n" by (simp add: n_def)
  have nx: "of_nat n \<le> x" "x < of_nat n + 1"
    using f1 by (simp_all add: n_def) linarith+
  have up: "of_nat n + 1 \<le> (2::rat) ^ k"
  proof -
    have "n + 1 \<le> 2 ^ k" using bitlen_upper[of n] by (simp add: k_def)
    then have "(of_nat (n + 1) :: rat) \<le> of_nat (2 ^ k)" by (rule of_nat_mono)
    then show ?thesis by simp
  qed
  have lo: "(2::rat) ^ k \<le> 2 * of_nat n"
  proof -
    have "(of_nat (2 ^ k) :: rat) \<le> of_nat (2 * n)"
      using bitlen_lower[OF n1] unfolding k_def by (rule of_nat_mono)
    then show ?thesis by simp
  qed
  have h: "2 * pow2 (int k - 1) = 2 ^ k"
    using pow2_Suc[of "int k - 1"] by (simp add: pow2_of_nat)
  have "pow2 (int k - 1) \<le> x" using h lo nx(1) by linarith
  moreover have "x < pow2 (int k)" using up nx(2) by (simp add: pow2_of_nat)
  ultimately show ?thesis by (simp add: k_def n_def)
qed

lemma floor_log2_bounds:
  assumes "0 < a"
  shows "pow2 (floor_log2 a) \<le> a \<and> a < pow2 (floor_log2 a + 1)"
proof (cases "1 \<le> a")
  case True
  then show ?thesis using bitlen_floor[OF True] by (simp add: floor_log2_def)
next
  case False
  define k where "k = int (bitlen (nat \<lfloor>1 / a\<rfloor>))"
  have "1 \<le> 1 / a" using assms False by simp
  from bitlen_floor[OF this] have b: "pow2 (k - 1) \<le> 1 / a" "1 / a < pow2 k"
    by (simp_all add: k_def)
  have m1: "pow2 (k - 1) * pow2 (1 - k) = 1" "pow2 k * pow2 (- k) = 1"
    using pow2_add[of "k - 1" "1 - k"] pow2_add[of k "- k"] by (simp_all add: pow2_0)
  have up: "a \<le> pow2 (1 - k)"
  proof -
    have "pow2 (k - 1) * a \<le> 1" using b(1) assms by (simp add: field_simps)
    then have "pow2 (k - 1) * a \<le> pow2 (k - 1) * pow2 (1 - k)" by (simp add: m1)
    then show ?thesis using pow2_pos[of "k - 1"] by simp
  qed
  have lo: "pow2 (- k) < a"
  proof -
    have "1 < pow2 k * a" using b(2) assms by (simp add: field_simps)
    then have "pow2 k * pow2 (- k) < pow2 k * a" by (simp add: m1)
    then show ?thesis using pow2_pos[of k] by simp
  qed
  have fl: "floor_log2 a = (if a = pow2 (1 - k) then 1 - k else - k)"
    using False by (simp add: floor_log2_def k_def Let_def)
  show ?thesis
  proof (cases "a = pow2 (1 - k)")
    case True
    have "floor_log2 a = 1 - k" using fl True by simp
    moreover have "pow2 (1 - k) < pow2 (1 - k + 1)" using pow2_pos[of "1 - k"] pow2_Suc[of "1 - k"] by simp
    ultimately show ?thesis using True by simp
  next
    case ne: False
    have "floor_log2 a = - k" using fl ne by simp
    moreover have "a < pow2 (- k + 1)" using up ne by (simp add: add.commute)
    ultimately show ?thesis using lo by simp
  qed
qed

lemma floor_log2_mono:
  assumes "0 < a" "a \<le> b"
  shows "floor_log2 a \<le> floor_log2 b"
proof -
  have "pow2 (floor_log2 a) \<le> a" using floor_log2_bounds[OF assms(1)] by simp
  moreover have "b < pow2 (floor_log2 b + 1)" using floor_log2_bounds[of b] assms by simp
  ultimately have "pow2 (floor_log2 a) < pow2 (floor_log2 b + 1)" using assms(2) by linarith
  from pow2_less_imp[OF this] show ?thesis by simp
qed

lemma round_half_even_range: "\<lfloor>x\<rfloor> \<le> round_half_even x \<and> round_half_even x \<le> \<lfloor>x\<rfloor> + 1"
  by (simp add: round_half_even_def Let_def)

lemma round_half_even_mono:
  assumes "x \<le> y"
  shows "round_half_even x \<le> round_half_even y"
proof (cases "\<lfloor>x\<rfloor> < \<lfloor>y\<rfloor>")
  case True
  then show ?thesis using round_half_even_range[of x] round_half_even_range[of y] by linarith
next
  case False
  then have "\<lfloor>x\<rfloor> = \<lfloor>y\<rfloor>" using floor_mono[OF assms] by simp
  then show ?thesis using assms by (auto simp: round_half_even_def Let_def)
qed

lemma round_half_even_of_int: "round_half_even (of_int k) = k"
  by (simp add: round_half_even_def Let_def)

lemma round64_positive:
  "0 < q \<Longrightarrow> round64 q =
     (if pow2 1024 \<le> of_int (round_half_even (q / pow2 (max (floor_log2 q - 52) (- 1074))))
                        * pow2 (max (floor_log2 q - 52) (- 1074))
      then PInf
      else Finite (of_int (round_half_even (q / pow2 (max (floor_log2 q - 52) (- 1074))))
                        * pow2 (max (floor_log2 q - 52) (- 1074))))"
  by (simp add: round64_def Let_def)

lemma round64_mono_pos:
  assumes a: "0 < a" and ab: "a \<le> b"
  shows "float_le (round64 a) (round64 b)"
proof -
  define pa where "pa = max (floor_log2 a - 52) (- 1074)"
  define pb where "pb = max (floor_log2 b - 52) (- 1074)"
  define ra where "ra = of_int (round_half_even (a / pow2 pa)) * pow2 pa"
  define rb where "rb = of_int (round_half_even (b / pow2 pb)) * pow2 pb"
  have b: "0 < b" using a ab by simp
  have va: "round64 a = (if pow2 1024 \<le> ra then PInf else Finite ra)"
    unfolding ra_def pa_def by (rule round64_positive[OF a])
  have vb: "round64 b = (if pow2 1024 \<le> rb then PInf else Finite rb)"
    unfolding rb_def pb_def by (rule round64_positive[OF b])
  have e: "floor_log2 a \<le> floor_log2 b" by (rule floor_log2_mono[OF a ab])
  then have p: "pa \<le> pb" by (simp add: pa_def pb_def)
  have r: "ra \<le> rb"
  proof (cases "pa = pb")
    case True
    have "a / pow2 pb \<le> b / pow2 pb" using ab pow2_pos[of pb] by (simp add: divide_right_mono)
    then have "round_half_even (a / pow2 pb) \<le> round_half_even (b / pow2 pb)"
      by (rule round_half_even_mono)
    then have "(of_int (round_half_even (a / pow2 pb)) :: rat) \<le> of_int (round_half_even (b / pow2 pb))"
      by simp
    then show ?thesis unfolding ra_def rb_def True
      using pow2_pos[of pb] by (simp add: mult_right_mono)
  next
    case False
    then have lt: "pa < pb" using p by simp
    then have pb: "pb = floor_log2 b - 52" by (auto simp: pa_def pb_def)
    have ea: "floor_log2 a + 1 \<le> pa + 53" by (simp add: pa_def)
    have "a < pow2 (floor_log2 a + 1)" using floor_log2_bounds[OF a] by simp
    also have "\<dots> \<le> pow2 (pa + 53)" by (rule pow2_mono[OF ea])
    also have "\<dots> = pow2 53 * pow2 pa" by (simp add: pow2_add add.commute)
    finally have "a / pow2 pa \<le> pow2 53" using pow2_pos[of pa] by (simp add: field_simps)
    then have "round_half_even (a / pow2 pa) \<le> round_half_even (pow2 53)"
      by (rule round_half_even_mono)
    also have "\<dots> = 2 ^ 53" by (simp only: pow2_int[of 53] round_half_even_of_int) simp
    finally have "(of_int (round_half_even (a / pow2 pa)) :: rat) \<le> of_int (2 ^ 53)"
      by (simp only: of_int_le_iff)
    then have "ra \<le> of_int (2 ^ 53) * pow2 pa"
      unfolding ra_def using pow2_pos[of pa] by (simp only: mult_right_mono less_imp_le)
    also have "of_int (2 ^ 53) * pow2 pa = pow2 (53 + pa)"
      by (simp only: pow2_add pow2_int[of 53]) simp
    finally have ua: "ra \<le> pow2 (53 + pa)" .
    have "pow2 (52 + pb) = pow2 52 * pow2 pb" by (rule pow2_add)
    moreover have "pow2 (52 + pb) \<le> b" using floor_log2_bounds[OF b] by (simp add: pb)
    ultimately have "pow2 52 \<le> b / pow2 pb" using pow2_pos[of pb] by (simp add: field_simps)
    then have "round_half_even (pow2 52) \<le> round_half_even (b / pow2 pb)"
      by (rule round_half_even_mono)
    moreover have "round_half_even (pow2 52) = 2 ^ 52"
      by (simp only: pow2_int[of 52] round_half_even_of_int) simp
    ultimately have "(of_int (2 ^ 52) :: rat) \<le> of_int (round_half_even (b / pow2 pb))"
      by (simp only: of_int_le_iff)
    then have "of_int (2 ^ 52) * pow2 pb \<le> rb"
      unfolding rb_def using pow2_pos[of pb] by (simp only: mult_right_mono less_imp_le)
    moreover have "of_int (2 ^ 52) * pow2 pb = pow2 (52 + pb)"
      by (simp only: pow2_add pow2_int[of 52]) simp
    ultimately have lb: "pow2 (52 + pb) \<le> rb" by simp
    have "pow2 (53 + pa) \<le> pow2 (52 + pb)" using lt by (intro pow2_mono) simp
    then show ?thesis using ua lb by linarith
  qed
  show ?thesis using r by (auto simp: va vb float_le_def)
qed

lemma round_half_even_nonneg: "0 \<le> x \<Longrightarrow> 0 \<le> round_half_even x"
  using round_half_even_mono[of 0 x] round_half_even_of_int[of 0] by simp

lemma round64_pos_range:
  assumes "0 < q"
  shows "round64 q = PInf \<or> (\<exists>r\<ge>0. round64 q = Finite r)"
proof -
  have "0 \<le> q / pow2 (max (floor_log2 q - 52) (- 1074))"
    using assms pow2_pos[of "max (floor_log2 q - 52) (- 1074)"] by simp
  then have "0 \<le> round_half_even (q / pow2 (max (floor_log2 q - 52) (- 1074)))"
    by (rule round_half_even_nonneg)
  then have "(0::rat) \<le> of_int (round_half_even (q / pow2 (max (floor_log2 q - 52) (- 1074))))
       * pow2 (max (floor_log2 q - 52) (- 1074))"
    using pow2_pos[of "max (floor_log2 q - 52) (- 1074)"] by simp
  then show ?thesis by (simp add: round64_positive[OF assms])
qed

lemma round64_negative:
  assumes "q < 0"
  shows "(round64 (- q) = PInf \<and> round64 q = NInf) \<or>
         (\<exists>r. round64 (- q) = Finite r \<and> round64 q = Finite (- r))"
  using assms by (simp add: round64_def Let_def)

lemma round64_mono:
  assumes "a \<le> b"
  shows "float_le (round64 a) (round64 b)"
proof -
  consider "0 < a" | "a = 0" "b = 0" | "a = 0" "0 < b" | "a < 0" "0 < b" | "a < 0" "b = 0" | "a < 0" "b < 0"
    using assms by linarith
  then show ?thesis
  proof cases
    case 1
    then show ?thesis using assms by (rule round64_mono_pos)
  next
    case 2
    then show ?thesis by (simp add: round64_def float_le_def)
  next
    case 3
    have "round64 a = Finite 0" using 3 by (simp add: round64_def)
    then show ?thesis using round64_pos_range[OF 3(2)] by (auto simp: float_le_def)
  next
    case 4
    have "0 < - a" using 4 by simp
    from round64_pos_range[OF this] round64_negative[OF 4(1)] round64_pos_range[OF 4(2)]
    show ?thesis by (auto simp: float_le_def)
  next
    case 5
    have "0 < - a" using 5 by simp
    moreover have "round64 b = Finite 0" using 5 by (simp add: round64_def)
    ultimately show ?thesis using round64_pos_range[of "- a"] round64_negative[OF 5(1)]
      by (auto simp: float_le_def)
  next
    case 6
    have "0 < - b" "- b \<le> - a" using 6 assms by simp_all
    from round64_mono_pos[OF this] round64_negative[OF 6(1)] round64_negative[OF 6(2)]
    show ?thesis by (auto simp: float_le_def)
  qed
qed

lemma round64_not_nan: "round64 q \<noteq> NaN"
  by (simp add: round64_def Let_def)

lemma float_le_PInf: "x \<noteq> NaN \<Longrightarrow> float_le x PInf"
  by (cases x) (simp_all add: float_le_def)

lemma float_le_NInf: "x \<noteq> NaN \<Longrightarrow> float_le NInf x"
  by (cases x) (simp_all add: float_le_def)

lemma float_le_Finite: "float_le (Finite a) (Finite b) = (a \<le> b)"
  by (auto simp: float_le_def)

lemma float_add_mono:
  assumes "x \<noteq> NaN" "y \<noteq> NaN" "float_le x y" "a \<le> b"
  shows "float_le (float_add x (Finite a)) (float_add y (Finite b)) \<and>
         float_add x (Finite a) \<noteq> NaN \<and> float_add y (Finite b) \<noteq> NaN"
proof (cases x)
  case (Finite u)
  show ?thesis
  proof (cases y)
    case (Finite v)
    have "u + a \<le> v + b" using assms \<open>x = Finite u\<close> Finite by (simp add: float_le_Finite)
    then show ?thesis using \<open>x = Finite u\<close> Finite by (simp add: round64_mono round64_not_nan)
  next
    case PInf
    then show ?thesis using \<open>x = Finite u\<close> by (simp add: float_le_PInf round64_not_nan)
  next
    case NInf
    then show ?thesis using assms \<open>x = Finite u\<close> by (simp add: float_le_def)
  next
    case NaN
    then show ?thesis using assms by simp
  qed
next
  case PInf
  then have "y = PInf" using assms by (cases y) (simp_all add: float_le_def)
  then show ?thesis using PInf by (simp add: float_le_def)
next
  case NInf
  then show ?thesis using assms
    by (cases y) (simp_all add: float_le_NInf round64_not_nan)
next
  case NaN
  then show ?thesis using assms by simp
qed

lemma foldl_float_add_mono:
  assumes "list_all2 (\<le>) as bs" "x \<noteq> NaN" "y \<noteq> NaN" "float_le x y"
  shows "float_le (foldl float_add x (map Finite as)) (foldl float_add y (map Finite bs)) \<and>
         foldl float_add x (map Finite as) \<noteq> NaN \<and> foldl float_add y (map Finite bs) \<noteq> NaN"
  using assms
proof (induction as bs arbitrary: x y rule: list_all2_induct)
  case Nil
  then show ?case by simp
next
  case (Cons a as b bs)
  from float_add_mono[OF Cons.prems(1,2,3) Cons.hyps(1)]
  show ?case using Cons.IH[of "float_add x (Finite a)" "float_add y (Finite b)"] by simp
qed

lemma float_div_int_mono:
  assumes "x \<noteq> NaN" "y \<noteq> NaN" "float_le x y" "0 < n"
  shows "float_le (float_div_int x n) (float_div_int y n)"
proof -
  obtain k where n: "n = Suc k" using assms(4) by (cases n) auto
  have "0 < (of_nat (Suc k) :: rat)" by simp
  from round64_pos_range[OF this]
  consider "round64 (of_nat (Suc k)) = PInf" | r where "0 \<le> r" "round64 (of_nat (Suc k)) = Finite r"
    by blast
  then show ?thesis
  proof cases
    case 1
    show ?thesis
    proof (cases x)
      case (Finite u)
      then show ?thesis using assms 1 unfolding n
        by (cases y) (simp_all add: float_le_def)
    next
      case PInf
      then have "y = PInf" using assms by (cases y) (simp_all add: float_le_def)
      then show ?thesis using PInf unfolding n by (simp add: float_le_def)
    next
      case NInf
      then show ?thesis using assms 1 unfolding n
        by (cases y) (simp_all add: float_le_def)
    next
      case NaN
      then show ?thesis using assms by simp
    qed
  next
    case 2
    show ?thesis
    proof (cases x)
      case (Finite u)
      show ?thesis
      proof (cases y)
        case (Finite v)
        have "u / r \<le> v / r" using assms \<open>x = Finite u\<close> Finite 2(1)
          by (simp add: float_le_Finite divide_right_mono)
        then show ?thesis using \<open>x = Finite u\<close> Finite 2(2) unfolding n
          by (simp add: round64_mono)
      next
        case PInf
        then show ?thesis using \<open>x = Finite u\<close> 2(2) unfolding n
          by (simp add: float_le_PInf round64_not_nan)
      next
        case NInf
        then show ?thesis using assms \<open>x = Finite u\<close> by (simp add: float_le_def)
      next
        case NaN
        then show ?thesis using assms by simp
      qed
    next
      case PInf
      then have "y = PInf" using assms by (cases y) (simp_all add: float_le_def)
      then show ?thesis using PInf unfolding n by (simp add: float_le_def)
    next
      case NInf
      then show ?thesis using assms 2(2) unfolding n
        by (cases y) (simp_all add: float_le_NInf round64_not_nan)
    next
      case NaN
      then show ?thesis using assms by simp
    qed
  qed
qed

lemma record_responses_total:
  "total_response_time (record_responses rs st) = foldl float_add (total_response_time st) (map snd rs)"
proof (induction rs arbitrary: st)
  case Nil
  then show ?case by (simp add: record_responses_def)
next
  case (Cons r rs)
  obtain code t where r: "r = (code, t)" by (cases r)
  show ?case by (simp add: r record_responses_Cons Cons.IH add_response_def Let_def)
qed

lemma record_responses_min:
  "min_response_time (record_responses rs st) \<in> set (min_response_time st # map snd rs)"
proof (induction rs arbitrary: st)
  case Nil
  then show ?case by (simp add: record_responses_def)
next
  case (Cons r rs)
  obtain code t where r: "r = (code, t)" by (cases r)
  have "min_response_time (add_response code t st) \<in> {min_response_time st, t}"
    by (simp add: add_response_def Let_def py_min_def)
  then show ?case using Cons.IH[of "add_response code t st"]
    by (auto simp: r record_responses_Cons)
qed

lemma record_responses_max:
  "max_response_time (record_responses rs st) \<in> set (max_response_time st # map snd rs)"
proof (induction rs arbitrary: st)
  case Nil
  then show ?case by (simp add: record_responses_def)
next
  case (Cons r rs)
  obtain code t where r: "r = (code, t)" by (cases r)
  have "max_response_time (add_response code t st) \<in> {max_response_time st, t}"
    by (simp add: add_response_def Let_def py_max_def)
  then show ?case using Cons.IH[of "add_response code t st"]
    by (auto simp: r record_responses_Cons)
qed

lemma record_responses_min_first:
  assumes "rs \<noteq> []" "list_all (\<lambda>r. finite_float (snd r)) rs"
  shows "min_response_time (record_responses rs ScanStats_init) \<in> set (map snd rs)"
proof -
  obtain code t rs' where rs: "rs = (code, t) # rs'" using assms(1) by (cases rs) auto
  obtain q where t: "t = Finite q" using assms(2) rs by (cases t) (simp_all add: finite_float_def)
  have "min_response_time (add_response code t ScanStats_init) = t"
    by (simp add: add_response_def Let_def py_min_def ScanStats_init_def t)
  then show ?thesis
    using record_responses_min[of rs' "add_response code t ScanStats_init"]
    by (simp add: rs record_responses_Cons)
qed

lemma finite_times:
  "list_all (\<lambda>r. finite_float (snd r)) rs \<Longrightarrow> \<exists>qs. map snd rs = map Finite qs"
proof (induction rs)
  case Nil
  then show ?case by simp
next
  case (Cons r rs)
  then obtain qs where qs: "map snd rs = map Finite qs" by auto
  from Cons.prems obtain q where "snd r = Finite q"
    by (cases "snd r") (simp_all add: finite_float_def)
  then have "map snd (r # rs) = map Finite (q # qs)" using qs by simp
  then show ?case by blast
qed

lemma list_all2_replicate_left:
  "list_all2 P (replicate (length ys) x) ys = (\<forall>y\<in>set ys. P x y)"
  by (induction ys) simp_all

lemma list_all2_replicate_right:
  "list_all2 P ys (replicate (length ys) x) = (\<forall>y\<in>set ys. P y x)"
  by (induction ys) simp_all

lemma record_responses_avg_bounds:
  assumes ne: "rs \<noteq> []" and fin: "list_all (\<lambda>r. finite_float (snd r)) rs"
  shows "float_le (float_div_int (foldl float_add (Finite 0)
                     (replicate (length rs) (min_response_time (record_responses rs ScanStats_init))))
                   (length rs))
                  (float_div_int (foldl float_add (Finite 0) (map snd rs)) (length rs)) \<and>
         float_le (float_div_int (foldl float_add (Finite 0) (map snd rs)) (length rs))
                  (float_div_int (foldl float_add (Finite 0)
                     (replicate (length rs) (max_response_time (record_responses rs ScanStats_init))))
                   (length rs))"
proof -
  let ?R = "record_responses rs ScanStats_init"
  obtain qs where qs: "map snd rs = map Finite qs" using finite_times[OF fin] by blast
  have len: "length qs = length rs" using arg_cong[OF qs, of length] by simp
  have i1: "min_response_time ScanStats_init \<noteq> NaN" "max_response_time ScanStats_init \<noteq> NaN"
    by (simp_all add: ScanStats_init_def)
  note b = record_responses_bounds[OF fin i1]
  have "min_response_time ?R \<in> set (map Finite qs)"
    using record_responses_min_first[OF ne fin] by (simp only: qs)
  then obtain lo where lo: "min_response_time ?R = Finite lo" by auto
  have "max_response_time ?R \<in> set (Finite 0 # map Finite qs)"
    using record_responses_max[of rs ScanStats_init] by (simp only: qs) (simp add: ScanStats_init_def)
  then obtain hi where hi: "max_response_time ?R = Finite hi" by auto
  have "list_all (\<lambda>t. float_le (Finite lo) t \<and> float_le t (Finite hi)) (map snd rs)"
    using b by (simp add: lo hi list_all_iff)
  then have bq: "\<forall>q\<in>set qs. lo \<le> q \<and> q \<le> hi"
    by (simp add: qs list_all_iff float_le_Finite)
  have z: "Finite 0 \<noteq> NaN" "float_le (Finite 0) (Finite 0)" by (simp_all add: float_le_Finite)
  have l2: "list_all2 (\<le>) (replicate (length qs) lo) qs"
    using bq by (simp add: list_all2_replicate_left)
  have h2: "list_all2 (\<le>) qs (replicate (length qs) hi)"
    using bq by (simp add: list_all2_replicate_right)
  have n: "0 < length rs" using ne by simp
  from foldl_float_add_mono[OF l2 z(1) z(1) z(2)]
  have l3: "float_le (float_div_int (foldl float_add (Finite 0) (map Finite (replicate (length qs) lo))) (length rs))
              (float_div_int (foldl float_add (Finite 0) (map Finite qs)) (length rs))"
    using n by (intro float_div_int_mono) simp_all
  from foldl_float_add_mono[OF h2 z(1) z(1) z(2)]
  have h3: "float_le (float_div_int (foldl float_add (Finite 0) (map Finite qs)) (length rs))
              (float_div_int (foldl float_add (Finite 0) (map Finite (replicate (length qs) hi))) (length rs))"
    using n by (intro float_div_int_mono) simp_all
  show ?thesis using l3 h3 by (simp add: lo hi qs len)
qed

subsection \<open>Parsing a URL that was put together from its parts\<close>

lemma of_char_py_lower_char:
  "(of_char (py_lower_char c) :: nat) =
     (if 65 \<le> (of_char c :: nat) \<and> (of_char c :: nat) \<le> 90 then of_char c + 32 else of_char c)"
  by (simp add: py_lower_char_def Let_def)

lemma char_eq_of_char: "(c = d) = ((of_char c :: nat) = of_char d)"
  by simp

lemma scheme_char_lower:
  assumes "is_scheme_char c"
  shows "is_scheme_char (py_lower_char c)"
    and "py_lower_char (py_lower_char c) = py_lower_char c"
    and "py_lower_char c \<noteq> CHR '':''"
    and "CHR '':'' \<noteq> py_lower_char c"
    and "\<not> is_unsafe_url_byte (py_lower_char c)"
  using assms
  by (auto simp: is_scheme_char_def is_ascii_alpha_def is_digit_def is_unsafe_url_byte_def Let_def
                 char_eq_of_char of_char_py_lower_char)

lemma alpha_lower:
  assumes "is_ascii_alpha c"
  shows "is_ascii_alpha (py_lower_char c)" and "\<not> is_c0_control_or_space (py_lower_char c)"
  using assms
  by (auto simp: is_ascii_alpha_def is_c0_control_or_space_def Let_def of_char_py_lower_char)

lemma safe_Nil: "safe []"
  by (simp add: safe_def)

lemma safe_Cons: "safe (c # s) = (\<not> is_unsafe_url_byte c \<and> safe s)"
  by (simp add: safe_def)

lemma safe_append: "safe (a @ b) = (safe a \<and> safe b)"
  by (simp add: safe_def)

lemma safe_takeWhile: "safe s \<Longrightarrow> safe (takeWhile P s)"
  by (auto simp: safe_def list_all_iff dest: set_takeWhileD)

lemma safe_dropWhile: "safe s \<Longrightarrow> safe (dropWhile P s)"
  by (auto simp: safe_def list_all_iff dest: set_dropWhileD)

lemma safe_drop: "safe s \<Longrightarrow> safe (drop n s)"
  by (auto simp: safe_def list_all_iff dest: in_set_dropD)

lemma safe_take: "safe s \<Longrightarrow> safe (take n s)"
  by (auto simp: safe_def list_all_iff dest: in_set_takeD)

lemma safe_butlast: "safe s \<Longrightarrow> safe (butlast s)"
  by (auto simp: safe_def list_all_iff dest: in_set_butlastD)

lemma safe_tl: "safe s \<Longrightarrow> safe (tl s)"
  by (cases s) (simp_all add: safe_def)

lemmas safe_simps = safe_Nil safe_Cons safe_append safe_takeWhile safe_dropWhile safe_drop
  safe_take safe_butlast safe_tl

lemma split_scheme_ok:
  assumes "split_scheme w = (sch, rest)" and "sch \<noteq> []"
  shows "scheme_ok sch"
proof -
  define pre where "pre = takeWhile (\<lambda>x. x \<noteq> CHR '':'') w"
  from assms have c: "pre \<noteq> []" "is_ascii_alpha (hd pre)" "list_all is_scheme_char pre"
    and sch: "sch = py_lower pre"
    by (auto simp: split_scheme_def Let_def pre_def split: if_splits)
  have hd: "hd sch = py_lower_char (hd pre)" using c(1) by (simp add: sch py_lower_def hd_map)
  have all: "\<And>x. x \<in> set pre \<Longrightarrow> is_scheme_char x" using c(3) by (simp add: list_all_iff)
  show ?thesis
    unfolding scheme_ok_def hd
    using c(1) alpha_lower[OF c(2)] all
    by (auto simp: sch py_lower_def list_all_iff scheme_char_lower intro!: map_idI)
qed

lemma split_scheme_safe:
  assumes "split_scheme w = (sch, rest)" and "safe w"
  shows "safe rest"
  using assms
  by (auto simp: split_scheme_def Let_def safe_simps split: if_splits)

lemma split_scheme_assembled:
  assumes "scheme_ok sch"
  shows "split_scheme (sch @ CHR '':'' # rest) = (sch, rest)"
proof -
  have "\<And>x. x \<in> set sch \<Longrightarrow> x \<noteq> CHR '':''" using assms by (auto simp: scheme_ok_def)
  then have tw: "takeWhile (\<lambda>x. x \<noteq> CHR '':'') (sch @ CHR '':'' # rest) = sch"
    by simp
  show ?thesis
    using assms unfolding split_scheme_def tw Let_def by (simp add: scheme_ok_def)
qed

lemma splitnetloc_assembled:
  assumes "list_all (\<lambda>c. \<not> is_netloc_delim c) nl"
  shows "splitnetloc (''//'' @ nl @ CHR ''/'' # R) = (nl, CHR ''/'' # R)"
  using assms
  by (simp add: splitnetloc_def list_all_iff takeWhile_append2 dropWhile_append2 is_netloc_delim_def)

lemma urlsplit_assembled:
  assumes s: "scheme_ok sch" and n: "list_all (\<lambda>c. \<not> is_netloc_delim c) nl"
    and e: "\<not> netloc_error L nl" and sf: "safe nl" "safe R"
  shows "\<exists>p q f. urlsplit L (sch @ '':'' @ ''//'' @ nl @ ''/'' @ R) = Inr (sch, nl, p, q, f)"
proof -
  let ?v = "sch @ '':'' @ ''//'' @ nl @ ''/'' @ R"
  obtain a as where sch: "sch = a # as" using s by (cases sch) (auto simp: scheme_ok_def)
  have d: "dropWhile is_c0_control_or_space ?v = ?v"
    using s by (simp add: sch scheme_ok_def)
  have "safe ?v" using s sf by (simp add: safe_simps safe_def[of sch] scheme_ok_def is_unsafe_url_byte_def)
  then have f: "filter (\<lambda>c. \<not> is_unsafe_url_byte c) ?v = ?v"
    unfolding safe_def list_all_iff by (intro filter_True) simp
  have ss: "split_scheme ?v = (sch, ''//'' @ nl @ ''/'' @ R)"
    using split_scheme_assembled[OF s, of "''//'' @ nl @ ''/'' @ R"] by simp
  have sn: "splitnetloc (''//'' @ nl @ ''/'' @ R) = (nl, ''/'' @ R)"
    using splitnetloc_assembled[OF n, of R] by simp
  show ?thesis
    unfolding urlsplit_def d f ss Let_def
    using e sn by (simp add: split_def)
qed

lemma split_first_safe:
  "safe s \<Longrightarrow> safe (fst (split_first c s)) \<and> safe (snd (split_first c s))"
  by (simp add: split_first_def safe_simps)

lemma urlsplit_parts:
  assumes "urlsplit L u = Inr (sch, nl, p, q, f)"
  shows "(sch \<noteq> [] \<longrightarrow> scheme_ok sch) \<and> list_all (\<lambda>c. \<not> is_netloc_delim c) nl \<and>
         \<not> netloc_error L nl \<and> safe nl \<and> safe p \<and> safe q"
proof -
  define w where "w = filter (\<lambda>c. \<not> is_unsafe_url_byte c) (dropWhile is_c0_control_or_space u)"
  define sch' where "sch' = fst (split_scheme w)"
  define url2 where "url2 = snd (split_scheme w)"
  define X where "X = (if take 2 url2 = ''//'' then splitnetloc url2 else ([], url2))"
  define Y where "Y = (if CHR ''#'' \<in> set (snd X) then split_first CHR ''#'' (snd X) else (snd X, []))"
  define Z where "Z = (if CHR ''?'' \<in> set (fst Y) then split_first CHR ''?'' (fst Y) else (fst Y, []))"
  have ss: "split_scheme w = (sch', url2)" by (simp add: sch'_def url2_def)
  have us: "urlsplit L u = (if netloc_error L (fst X) then Inl ValueError
                            else Inr (sch', fst X, fst Z, snd Z, snd Y))"
    by (simp only: urlsplit_def Let_def split_def X_def Y_def Z_def w_def sch'_def url2_def)
  from assms us have ne: "\<not> netloc_error L (fst X)" and eq: "sch = sch'" "nl = fst X" "p = fst Z" "q = snd Z"
    by (auto split: if_splits)
  have sw: "safe w" by (simp add: safe_def w_def list_all_iff)
  have s2: "safe url2" using ss sw by (rule split_scheme_safe)
  have sX: "safe (fst X)" "safe (snd X)"
    using s2 by (simp_all add: X_def splitnetloc_def safe_simps)
  have dX: "list_all (\<lambda>c. \<not> is_netloc_delim c) (fst X)"
    by (auto simp: X_def splitnetloc_def list_all_iff dest: set_takeWhileD)
  have sY: "safe (fst Y)" using sX split_first_safe[of "snd X" "CHR ''#''"] by (simp add: Y_def)
  have sZ: "safe (fst Z)" "safe (snd Z)"
    using sY split_first_safe[of "fst Y" "CHR ''?''"] by (simp_all add: Z_def safe_simps)
  have sc: "sch' \<noteq> [] \<longrightarrow> scheme_ok sch'" using ss split_scheme_ok by blast
  show ?thesis using sc sX dX sZ ne by (simp add: eq)
qed

lemma splitparams_safe:
  "safe s \<Longrightarrow> safe (fst (splitparams s)) \<and> safe (snd (splitparams s))"
  by (simp add: splitparams_def Let_def split_first_def safe_simps)

lemma urlparse_parts:
  assumes "urlparse L u = Inr r"
  shows "(scheme r \<noteq> [] \<longrightarrow> scheme_ok (scheme r)) \<and> list_all (\<lambda>c. \<not> is_netloc_delim c) (netloc r) \<and>
         \<not> netloc_error L (netloc r) \<and> safe (netloc r) \<and> safe (path r) \<and> safe (params r) \<and> safe (query r)"
proof -
  from assms obtain sch nl p q f where us: "urlsplit L u = Inr (sch, nl, p, q, f)"
    by (auto simp: urlparse_def split: sum.splits)
  note pp = urlsplit_parts[OF us]
  show ?thesis
  proof (cases "sch \<in> set uses_params \<and> CHR '';'' \<in> set p")
    case True
    with assms us have r: "r = \<lparr> scheme = sch, netloc = nl, path = fst (splitparams p),
        params = snd (splitparams p), query = q, fragment = f \<rparr>"
      by (simp add: urlparse_def Let_def split_def)
    show ?thesis using pp splitparams_safe[of p] by (simp add: r)
  next
    case False
    with assms us have r: "r = \<lparr> scheme = sch, netloc = nl, path = p, params = [], query = q, fragment = f \<rparr>"
      by (auto simp: urlparse_def Let_def split_def)
    show ?thesis using pp by (simp add: r safe_Nil)
  qed
qed

lemma urlparse_assembled:
  assumes s: "scheme_ok sch" and n: "list_all (\<lambda>c. \<not> is_netloc_delim c) nl"
    and e: "\<not> netloc_error L nl" and sf: "safe nl" "safe R"
  shows "get_base_url L (sch @ '':'' @ ''//'' @ nl @ ''/'' @ R) = Inr (sch @ ''://'' @ nl)"
proof -
  from urlsplit_assembled[OF s n e sf] obtain p q f where
    "urlsplit L (sch @ '':'' @ ''//'' @ nl @ ''/'' @ R) = Inr (sch, nl, p, q, f)" by blast
  then show ?thesis by (simp add: get_base_url_def urlparse_def Let_def split_def)
qed

lemma normalize_url_base:
  assumes valid: "is_valid_url L u" and norm: "normalize_url L u = Inr v"
  shows "get_base_url L v = get_base_url L u"
proof -
  from valid obtain r where up: "urlparse L u = Inr r" and sne: "scheme r \<noteq> []" and nne: "netloc r \<noteq> []"
    by (auto simp: is_valid_url_def split: sum.splits)
  note pp = urlparse_parts[OF up]
  define path1 where "path1 = (if path r = [] then ''/'' else path r)"
  define path2 where "path2 = (if path1 \<noteq> [] \<and> last path1 = CHR ''/'' \<and> length path1 > 1
                        then butlast path1 else path1)"
  define U where "U = (if params r \<noteq> [] then path2 @ '';'' @ params r else path2)"
  define U' where "U' = (if take 1 U \<noteq> ''/'' then ''/'' @ U else U)"
  define R where "R = tl U' @ (if query r \<noteq> [] then ''?'' @ query r else [])"
  have p1: "path1 \<noteq> []" "safe path1"
    using pp by (simp_all add: path1_def safe_simps is_unsafe_url_byte_def)
  have bl: "butlast path1 \<noteq> []" if "length path1 > 1"
    using that by (cases path1; cases "tl path1"; simp)
  have p2: "path2 \<noteq> []" "safe path2"
    using p1 bl by (simp_all add: path2_def safe_simps)
  have u: "U \<noteq> []" "safe U"
    using p2 pp by (simp_all add: U_def safe_simps is_unsafe_url_byte_def)
  have u'1: "U' = ''/'' @ tl U'"
    using u(1) by (cases U) (simp_all add: U'_def)
  have u'2: "safe U'"
    using u(2) by (simp add: U'_def safe_simps is_unsafe_url_byte_def)
  have sR: "safe R"
    using u'2 pp by (simp add: R_def safe_simps is_unsafe_url_byte_def)
  have v: "v = scheme r @ '':'' @ ''//'' @ netloc r @ ''/'' @ R"
  proof -
    have "normalize_url L u = Inr (urlunparse (r \<lparr> fragment := [], path := path2 \<rparr>))"
      unfolding normalize_url_def up by (simp add: Let_def path1_def path2_def cong: if_cong)
    then have "v = urlunparse (r \<lparr> fragment := [], path := path2 \<rparr>)"
      using norm by simp
    also have "\<dots> = scheme r @ '':'' @ ''//'' @ netloc r @ U' @ (if query r \<noteq> [] then ''?'' @ query r else [])"
      using sne nne u(1) p2(1) by (simp add: urlunparse_def urlunsplit_def Let_def U_def U'_def)
    also have "\<dots> = scheme r @ '':'' @ ''//'' @ netloc r @ ''/'' @ R"
      unfolding R_def using u'1 by (metis append_assoc)
    finally show ?thesis .
  qed
  have "get_base_url L v = Inr (scheme r @ ''://'' @ netloc r)"
    unfolding v using pp sne sR by (intro urlparse_assembled) simp_all
  moreover have "get_base_url L u = Inr (scheme r @ ''://'' @ netloc r)"
    using up by (simp add: get_base_url_def)
  ultimately show ?thesis by simp
qed

subsection \<open>What the parts of a page scan leave unchanged\<close>

lemma add_vulnerability_view: "add_vulnerability E t u d s = Inr s' \<Longrightarrow> crawl_view s' = crawl_view s"
  by (auto simp: add_vulnerability_def crawl_view_def add_vulnerability_stats_def Let_def split: sum.splits)

lemma add_vulnerabilities_view: "add_vulnerabilities E vs s = (s', r) \<Longrightarrow> crawl_view s' = crawl_view s"
  by (induction E vs s rule: add_vulnerabilities.induct)
     (auto split: sum.splits dest!: add_vulnerability_view)

lemma add_vulnerabilities_view_fst: "crawl_view (fst (add_vulnerabilities E vs s)) = crawl_view s"
  by (cases "add_vulnerabilities E vs s") (simp add: add_vulnerabilities_view)

lemma send_view: "send E req s = (s', r) \<Longrightarrow> crawl_view s' = crawl_view s"
  by (auto simp: send_def crawl_view_def)

lemma form_request_view: "form_request E fm data s = (s', r) \<Longrightarrow> crawl_view s' = crawl_view s"
  by (auto simp: form_request_def dest!: send_view split: if_splits)

lemma test_sql_injection_view: "crawl_view (test_sql_injection E fm url ps s) = crawl_view s"
  by (induction ps arbitrary: s)
     (auto split: prod.splits http_result.splits sum.splits dest!: form_request_view add_vulnerability_view)

lemma form_insecure_design_view: "crawl_view (form_insecure_design E fm url s) = crawl_view s"
  by (auto simp: form_insecure_design_def add_vulnerabilities_view_fst
           split: prod.splits http_result.splits sum.splits dest!: send_view)

lemma test_xss_view: "crawl_view (test_xss E fm url ps s) = crawl_view s"
  by (induction ps arbitrary: s)
     (auto split: prod.splits http_result.splits sum.splits dest!: form_request_view add_vulnerability_view)

lemma scan_form_view: "crawl_view (scan_form E fm url s) = crawl_view s"
  by (simp add: scan_form_def test_xss_view form_insecure_design_view test_sql_injection_view)

lemma scan_forms_loop_view: "crawl_view (scan_forms_loop E url fs s) = crawl_view s"
  by (induction fs arbitrary: s) (auto simp: scan_form_view, simp add: crawl_view_def)

lemma scan_url_params_for_xss_view: "scan_url_params_for_xss E url s = (s', r) \<Longrightarrow> crawl_view s' = crawl_view s"
  by (auto simp: scan_url_params_for_xss_def split: prod.splits option.splits dest!: add_vulnerabilities_view)

lemma scan_page_before_links_view: "scan_page_before_links E url r s = (s', x) \<Longrightarrow> crawl_view s' = crawl_view s"
  by (auto simp: scan_page_before_links_def scan_forms_loop_view
           split: prod.splits option.splits sum.splits if_splits dest!: scan_url_params_for_xss_view)

lemma check_security_headers_view: "check_security_headers E url r s = (s', x) \<Longrightarrow> crawl_view s' = crawl_view s"
  by (auto simp: check_security_headers_def split: if_splits dest!: add_vulnerabilities_view)

lemma run_page_checks_view: "run_page_checks E url r cs s = (s', x) \<Longrightarrow> crawl_view s' = crawl_view s"
  by (induction E url r cs s arbitrary: s' x rule: run_page_checks.induct)
     (auto split: prod.splits option.splits sum.splits if_splits dest!: add_vulnerabilities_view)

lemma scan_page_after_links_view: "scan_page_after_links E url r s = (s', x) \<Longrightarrow> crawl_view s' = crawl_view s"
  by (auto simp: scan_page_after_links_def split: prod.splits option.splits if_splits
           dest!: check_security_headers_view run_page_checks_view)
     (auto simp: crawl_view_def)

lemma make_request_loop_view: "make_request_loop E url as s = (s', x) \<Longrightarrow> crawl_view s' = crawl_view s"
proof (induction as arbitrary: s)
  case Nil then show ?case by simp
next
  case (Cons a as)
  obtain s1 r where sd: "send E (page_request url) s = (s1, r)" by (cases "send E (page_request url) s")
  then have v1: "crawl_view s1 = crawl_view s" by (rule send_view)
  have v2: "crawl_view (s1 \<lparr> events := events s1 @ [SleepScanDelay] \<rparr>) = crawl_view s1"
    by (simp add: crawl_view_def)
  show ?case using Cons.prems sd v1 v2 Cons.IH[of "s1 \<lparr> events := events s1 @ [SleepScanDelay] \<rparr>"]
    by (auto split: http_result.splits if_splits)
qed

lemma make_request_view: "make_request E url s = (s', x) \<Longrightarrow> crawl_view s' = crawl_view s"
  unfolding make_request_def by (rule make_request_loop_view)

lemma fetch_page_view: "fetch_page E url s = (s', st) \<Longrightarrow> crawl_view s' = crawl_view s"
proof -
  assume fp: "fetch_page E url s = (s', st)"
  obtain s2 x where mr: "make_request E url s = (s2, x)" by (cases "make_request E url s")
  then have v2: "crawl_view s2 = crawl_view s" by (rule make_request_view)
  show ?thesis
  proof (cases x)
    case (Inl e) with fp mr v2 show ?thesis by (simp add: fetch_page_def)
  next
    case (Inr ro)
    show ?thesis
    proof (cases ro)
      case None with fp mr v2 Inr show ?thesis by (simp add: fetch_page_def)
    next
      case (Some r)
      define s3 where "s3 = s2 \<lparr> stats := add_response (status_code r) (elapsed r) (stats s2) \<rparr>"
      have v3: "crawl_view s3 = crawl_view s2" by (simp add: s3_def crawl_view_def add_response_def Let_def)
      have v3e: "crawl_view (s3 \<lparr> stats := add_error (get_error_type r) (stats s3) \<rparr>) = crawl_view s3"
        by (simp add: crawl_view_def add_error_def)
      obtain s4 y where bl: "scan_page_before_links E url r s3 = (s4, y)" by (cases "scan_page_before_links E url r s3")
      then have v4: "crawl_view s4 = crawl_view s3" by (rule scan_page_before_links_view)
      from fp mr Inr Some bl show ?thesis
        using v2 v3 v3e v4
        by (auto simp: fetch_page_def Let_def s3_def[symmetric] split: if_splits option.splits sum.splits)
    qed
  qed
qed

lemma except_request_error_view: "except_request_error (s, exc) = (s', r) \<Longrightarrow> crawl_view s' = crawl_view s \<and> r = None"
  by (auto simp: except_request_error_def crawl_view_def add_error_def split: option.splits)

lemma check_broken_access_control_view: "crawl_view (check_broken_access_control E u s) = crawl_view s"
  by (auto simp: check_broken_access_control_def add_vulnerabilities_view_fst split: sum.splits)

lemma collect_links_ok:
  "collect_links E page ts acc = Inr ls \<Longrightarrow> list_all (url_ok E page) acc \<Longrightarrow> list_all (url_ok E page) ls"
  by (induction E page ts acc rule: collect_links.induct)
     (auto simp: url_ok_def split: option.splits sum.splits if_splits)

lemma extract_links_ok: "extract_links E html page = Inr ls \<Longrightarrow> list_all (url_ok E page) ls"
  by (auto simp: extract_links_def list_all_iff split: sum.splits dest!: collect_links_ok)

lemma fetch_page_links: "fetch_page E url s = (s', Page r lks) \<Longrightarrow> list_all (url_ok E url) lks"
  by (auto simp: fetch_page_def Let_def split: prod.splits sum.splits option.splits if_splits
           dest!: extract_links_ok)

lemma crawled_same: "crawl_view s' = crawl_view s \<Longrightarrow> crawled E s s' [] []"
  by (auto simp: crawled_def crawl_view_def)

lemma crawled_right: "crawled E s s1 new ls \<Longrightarrow> crawl_view s2 = crawl_view s1 \<Longrightarrow> crawled E s s2 new ls"
  by (auto simp: crawled_def crawl_view_def)

lemma crawled_trans:
  assumes a: "crawled E s s1 n1 l1" and b: "crawled E s1 s2 n2 l2"
  shows "crawled E s s2 (n1 @ n2) (l1 @ l2)"
proof -
  from a have a1: "fset (visited_urls s1) = fset (visited_urls s) \<union> set n1"
    and a2: "scanned_urls (stats s1) = scanned_urls (stats s) @ n1"
    and a3: "total_urls_scanned (stats s1) = total_urls_scanned (stats s) + length n1"
    and a4: "scanned_links s1 = scanned_links s @ l1"
    and a5: "distinct n1" and a6: "set n1 \<inter> fset (visited_urls s) = {}"
    and a7: "int (fcard (visited_urls s1)) \<le> max (int (fcard (visited_urls s))) (max_pages (config E))"
    by (simp_all add: crawled_def)
  from b have b1: "fset (visited_urls s2) = fset (visited_urls s1) \<union> set n2"
    and b2: "scanned_urls (stats s2) = scanned_urls (stats s1) @ n2"
    and b3: "total_urls_scanned (stats s2) = total_urls_scanned (stats s1) + length n2"
    and b4: "scanned_links s2 = scanned_links s1 @ l2"
    and b5: "distinct n2" and b6: "set n2 \<inter> fset (visited_urls s1) = {}"
    and b7: "int (fcard (visited_urls s2)) \<le> max (int (fcard (visited_urls s1))) (max_pages (config E))"
    by (simp_all add: crawled_def)
  have c1: "fset (visited_urls s2) = fset (visited_urls s) \<union> set (n1 @ n2)" using a1 b1 by auto
  have c5: "distinct (n1 @ n2)" using a5 b5 b6 a1 by auto
  have c6: "set (n1 @ n2) \<inter> fset (visited_urls s) = {}" using a6 b6 a1 by auto
  have c7: "int (fcard (visited_urls s2)) \<le> max (int (fcard (visited_urls s))) (max_pages (config E))"
    using a7 b7 by linarith
  show ?thesis unfolding crawled_def using c1 c5 c6 c7 a2 b2 a3 b3 a4 b4 by simp
qed

lemma crawled_visit:
  assumes "b |\<notin>| visited_urls s" and "\<not> max_pages (config E) \<le> int (fcard (visited_urls s))"
  shows "crawled E s (s \<lparr> visited_urls := finsert b (visited_urls s), stats := add_url b (stats s) \<rparr>) [b] []"
  using assms by (auto simp: crawled_def add_url_def fcard_finsert_disjoint)

lemma crawled_link:
  "crawled E s (s \<lparr> scanned_links := scanned_links s @ [l] \<rparr>) [] [l]"
  by (auto simp: crawled_def)

lemma is_same_domain_base:
  "is_same_domain L a b = Inr True \<Longrightarrow> get_base_url L a = get_base_url L b"
  by (auto simp: is_same_domain_def split: sum.splits)

lemma crawl_main:
  shows "\<exists>new ls. crawled E s (fst (scan_url E url0 depth s)) new ls \<and> list_all (link_ok E) ls \<and>
           (\<forall>b. normalize_url (lib E) url0 = Inr b \<longrightarrow>
                list_all (\<lambda>u. get_base_url (lib E) u = get_base_url (lib E) b) new)"
    and "list_all (url_ok E url) lks \<longrightarrow>
         (\<exists>new ls. crawled E s (fst (scan_links_loop E url lks depth s)) new ls \<and> list_all (link_ok E) ls \<and>
            list_all (\<lambda>u. get_base_url (lib E) u = get_base_url (lib E) url) new)"
proof (induction E url0 depth s and E url lks depth s rule: scan_url_scan_links_loop.induct)
  case (1 E url0 depth s)
  have trivial: "scan_url E url0 depth s = (s, x) \<Longrightarrow> ?case" for x
  proof -
    assume eq: "scan_url E url0 depth s = (s, x)"
    have "crawled E s s [] []" by (simp add: crawled_same)
    then show ?thesis unfolding eq by (intro exI[of _ "[]"]) simp
  qed
  show ?case
  proof (cases "max_depth (config E) < depth \<or> max_pages (config E) \<le> int (fcard (visited_urls s))")
    case True
    then have "scan_url E url0 depth s = (s, None)" by (subst scan_url.simps) auto
    then show ?thesis by (rule trivial)
  next
    case guard: False
    then have g1: "\<not> max_depth (config E) < depth"
      and g2: "\<not> max_pages (config E) \<le> int (fcard (visited_urls s))" by auto
    show ?thesis
    proof (cases "normalize_url (lib E) url0")
      case (Inl e)
      then have "scan_url E url0 depth s = (s, Some e)" using g1 g2 by (subst scan_url.simps) simp
      then show ?thesis by (rule trivial)
    next
      case (Inr b)
      show ?thesis
      proof (cases "b |\<in>| visited_urls s")
        case True
        then have "scan_url E url0 depth s = (s, None)" using g1 g2 Inr by (subst scan_url.simps) simp
        then show ?thesis by (rule trivial)
      next
        case nv: False
        define s1 where "s1 = s \<lparr> visited_urls := finsert b (visited_urls s), stats := add_url b (stats s) \<rparr>"
        have c1: "crawled E s s1 [b] []" unfolding s1_def using nv g2 by (rule crawled_visit)
        obtain s4 st where fp: "fetch_page E b s1 = (s4, st)" by (cases "fetch_page E b s1")
        have v4: "crawl_view s4 = crawl_view s1" using fp by (rule fetch_page_view)
        have c4: "crawled E s s4 [b] []" using c1 v4 by (rule crawled_right)
        show ?thesis
        proof (cases st)
          case (Stop exc)
          obtain s' r where ex: "except_request_error (s4, exc) = (s', r)"
            by (cases "except_request_error (s4, exc)")
          have eq: "scan_url E url0 depth s = (s', r)"
            using g1 g2 Inr nv fp Stop ex by (subst scan_url.simps) (simp add: s1_def)
          have "crawl_view s' = crawl_view s4" using except_request_error_view[OF ex] by simp
          with c4 have "crawled E s s' [b] []" by (rule crawled_right)
          then show ?thesis unfolding eq using Inr
            by (intro exI[of _ "[b]"] exI[of _ "[]"]) simp
        next
          case (Page r lks)
          have fp': "(s4, st) = fetch_page E b (s \<lparr> visited_urls := finsert b (visited_urls s), stats := add_url b (stats s) \<rparr>)"
            using fp by (simp add: s1_def)
          have lk: "list_all (url_ok E b) lks" using fp Page fetch_page_links by blast
          from "1.IH"[OF g1 g2 Inr nv fp' Page] lk
          obtain new ls where c5: "crawled E s4 (fst (scan_links_loop E b lks depth s4)) new ls"
            and l5: "list_all (link_ok E) ls"
            and n5: "list_all (\<lambda>u. get_base_url (lib E) u = get_base_url (lib E) b) new"
            by blast
          obtain s5 y where sl: "scan_links_loop E b lks depth s4 = (s5, y)"
            by (cases "scan_links_loop E b lks depth s4")
          have c05: "crawled E s s5 ([b] @ new) ([] @ ls)" using c4 c5 sl crawled_trans by fastforce
          obtain s6 z where fin: "scan_url E url0 depth s = (s6, z)" by (cases "scan_url E url0 depth s")
          have v6: "crawl_view s6 = crawl_view s5"
          proof (cases y)
            case None
            obtain s5' w where al: "scan_page_after_links E b r s5 = (s5', w)"
              by (cases "scan_page_after_links E b r s5")
            then have va: "crawl_view s5' = crawl_view s5" by (rule scan_page_after_links_view)
            have "except_request_error (s5', w) = (s6, z)"
              using fin g1 g2 Inr nv fp Page sl None al by (subst (asm) scan_url.simps) (simp add: s1_def)
            from except_request_error_view[OF this] va show ?thesis by simp
          next
            case (Some e)
            have "except_request_error (s5, Some e) = (s6, z)"
              using fin g1 g2 Inr nv fp Page sl Some by (subst (asm) scan_url.simps) (simp add: s1_def)
            from except_request_error_view[OF this] show ?thesis by simp
          qed
          have "crawled E s s6 ([b] @ new) ([] @ ls)" using c05 v6 by (rule crawled_right)
          then show ?thesis unfolding fin using l5 n5 Inr
            by (intro exI[of _ "[b] @ new"] exI[of _ "[] @ ls"]) simp
        qed
      qed
    qed
  qed
next
  case (2 E url depth s)
  have "crawled E s s [] []" by (simp add: crawled_same)
  then show ?case by (auto intro!: exI[of _ "[]"])
next
  case (3 E url link rest depth s)
  show ?case
  proof
    assume ok: "list_all (url_ok E url) (link # rest)"
    then have okl: "is_valid_url (lib E) link" and same: "is_same_domain (lib E) link url = Inr True"
      and okr: "list_all (url_ok E url) rest" by (simp_all add: url_ok_def)
    define l where "l = \<lparr> source_url = url, target_url = link \<rparr>"
    define s1 where "s1 = s \<lparr> scanned_links := scanned_links s @ [l] \<rparr>"
    have s1': "s1 = s \<lparr> scanned_links := scanned_links s @ [\<lparr> source_url = url, target_url = link \<rparr>] \<rparr>"
      by (simp add: s1_def l_def)
    have c1: "crawled E s s1 [] [l]" unfolding s1_def by (rule crawled_link)
    have lok: "link_ok E l" using okl same by (simp add: link_ok_def l_def)
    from "3.IH"(1)[OF s1' same] obtain new1 ls1 where
      p1: "crawled E s1 (fst (scan_url E link (depth + 1) s1)) new1 ls1" and p2: "list_all (link_ok E) ls1"
      and p3: "\<forall>b. normalize_url (lib E) link = Inr b \<longrightarrow>
                list_all (\<lambda>u. get_base_url (lib E) u = get_base_url (lib E) b) new1"
      by auto
    obtain s2 y where su: "scan_url E link (depth + 1) s1 = (s2, y)" by (cases "scan_url E link (depth + 1) s1")
    have c2: "crawled E s s2 ([] @ new1) ([l] @ ls1)" using c1 p1 su crawled_trans by fastforce
    have base1: "list_all (\<lambda>u. get_base_url (lib E) u = get_base_url (lib E) url) new1"
    proof (cases "normalize_url (lib E) link")
      case (Inl e)
      have "scan_url E link (depth + 1) s1 = (s1, None) \<or> scan_url E link (depth + 1) s1 = (s1, Some e)"
        using Inl by (subst scan_url.simps, subst scan_url.simps) auto
      then have "fst (scan_url E link (depth + 1) s1) = s1" by auto
      with p1 have "new1 = []" by (simp add: crawled_def)
      then show ?thesis by simp
    next
      case (Inr b)
      have "get_base_url (lib E) b = get_base_url (lib E) link" using okl Inr by (rule normalize_url_base)
      also have "\<dots> = get_base_url (lib E) url" using same by (rule is_same_domain_base)
      finally show ?thesis using p3 Inr by simp
    qed
    have eqn: "scan_links_loop E url (link # rest) depth s =
        (case y of Some e \<Rightarrow> (s2, Some e) | None \<Rightarrow> scan_links_loop E url rest depth s2)"
      using same su by (simp add: s1'[symmetric] Let_def split: option.splits)
    show "\<exists>new ls. crawled E s (fst (scan_links_loop E url (link # rest) depth s)) new ls \<and>
            list_all (link_ok E) ls \<and>
            list_all (\<lambda>u. get_base_url (lib E) u = get_base_url (lib E) url) new"
    proof (cases y)
      case (Some e)
      then have "fst (scan_links_loop E url (link # rest) depth s) = s2" using eqn by simp
      then show ?thesis using c2 lok p2 base1
        by (intro exI[of _ "[] @ new1"] exI[of _ "[l] @ ls1"]) simp
    next
      case None
      have su': "(s2, y) = scan_url E link (depth + 1) s1" using su by simp
      from "3.IH"(2)[OF s1' same _ su' None] okr obtain new2 ls2 where
        q1: "crawled E s2 (fst (scan_links_loop E url rest depth s2)) new2 ls2"
        and q2: "list_all (link_ok E) ls2"
        and q3: "list_all (\<lambda>u. get_base_url (lib E) u = get_base_url (lib E) url) new2"
        by auto
      have "fst (scan_links_loop E url (link # rest) depth s) = fst (scan_links_loop E url rest depth s2)"
        using eqn None by simp
      moreover have "crawled E s (fst (scan_links_loop E url rest depth s2)) (([] @ new1) @ new2) (([l] @ ls1) @ ls2)"
        using c2 q1 by (rule crawled_trans)
      ultimately show ?thesis using lok p2 q2 base1 q3
        by (intro exI[of _ "([] @ new1) @ new2"] exI[of _ "([l] @ ls1) @ ls2"]) simp
    qed
  qed
qed


subsection \<open>Evaluating floats\<close>

lemma bitlen_numeral: "bitlen (numeral k) = Suc (bitlen (numeral k div 2))"
  by (subst bitlen.simps) simp

lemma bitlen_0: "bitlen 0 = 0"
  by (simp add: bitlen.simps)

lemma bitlen_1: "bitlen (Suc 0) = Suc 0"
  by (simp add: bitlen.simps)

lemma floor_rat_numeral: "\<lfloor>numeral a / numeral b :: rat\<rfloor> = numeral a div numeral b"
  by (metis floor_divide_of_int_eq of_int_numeral)

lemma round64_pos:
  assumes "0 < q" "floor_log2 q = e" "max (e - 52) (- 1074) = p" "round_half_even (q / pow2 p) = m"
    "of_int m * pow2 p = r" "r < pow2 1024"
  shows "round64 q = Finite r"
  using assms by (auto simp: round64_def Let_def)

lemmas float_eval = floor_log2_def pow2_def round_half_even_def Let_def
  bitlen_numeral bitlen_0 bitlen_1 floor_rat_numeral

lemma tenth_val: "tenth = Finite (3602879701896397 / 36028797018963968)"
  unfolding tenth_def
  by (rule round64_pos[where e = "-4" and p = "-56" and m = 7205759403792794])
     (simp_all add: float_eval)

lemma round_tenth:
  "round64 (3602879701896397 / 36028797018963968) = Finite (3602879701896397 / 36028797018963968)"
  by (rule round64_pos[where e = "-4" and p = "-56" and m = 7205759403792794])
     (simp_all add: float_eval)

lemma round_fifth:
  "round64 (3602879701896397 / 18014398509481984) = Finite (3602879701896397 / 18014398509481984)"
  by (rule round64_pos[where e = "-3" and p = "-55" and m = 7205759403792794])
     (simp_all add: float_eval)

lemma round_three_tenths:
  "round64 (10808639105689191 / 36028797018963968) = Finite (1351079888211149 / 4503599627370496)"
  by (rule round64_pos[where e = "-2" and p = "-54" and m = 5404319552844596])
     (simp_all add: float_eval)

lemma round_1: "round64 1 = Finite 1"
  by (rule round64_pos[where e = 0 and p = "-52" and m = 4503599627370496])
     (simp_all add: float_eval)

lemma round_2: "round64 2 = Finite 2"
  by (rule round64_pos[where e = 1 and p = "-51" and m = 4503599627370496])
     (simp_all add: float_eval)

lemma round_3: "round64 3 = Finite 3"
  by (rule round64_pos[where e = 1 and p = "-51" and m = 6755399441055744])
     (simp_all add: float_eval)

lemma round_avg:
  "round64 (1351079888211149 / 13510798882111488) = Finite (7205759403792795 / 72057594037927936)"
  by (rule round64_pos[where e = "-4" and p = "-56" and m = 7205759403792795])
     (simp_all add: float_eval)

text \<open>The statistics after one, two and three responses of a tenth of a second.\<close>

lemma one_tenth:
  "add_response 200 tenth ScanStats_init =
     ScanStats_init \<lparr> total_requests := 1, response_codes := [200 \<mapsto> 1],
       total_response_time := Finite (3602879701896397 / 36028797018963968),
       avg_response_time := Finite (3602879701896397 / 36028797018963968),
       min_response_time := Finite (3602879701896397 / 36028797018963968),
       max_response_time := Finite (3602879701896397 / 36028797018963968) \<rparr>"
  by (simp add: add_response_def ScanStats_init_def Let_def tenth_val py_max_def py_min_def
        count_up_def round_tenth round_1)

lemma two_tenths:
  "add_response 200 tenth (add_response 200 tenth ScanStats_init) =
     ScanStats_init \<lparr> total_requests := 2, response_codes := [200 \<mapsto> 2],
       total_response_time := Finite (3602879701896397 / 18014398509481984),
       avg_response_time := Finite (3602879701896397 / 36028797018963968),
       min_response_time := Finite (3602879701896397 / 36028797018963968),
       max_response_time := Finite (3602879701896397 / 36028797018963968) \<rparr>"
  unfolding one_tenth
  by (simp add: add_response_def ScanStats_init_def Let_def tenth_val py_max_def py_min_def
        count_up_def round_fifth round_tenth round_2 numeral_2_eq_2)

lemma three_tenths:
  "add_response 200 tenth (add_response 200 tenth (add_response 200 tenth ScanStats_init)) =
     ScanStats_init \<lparr> total_requests := 3, response_codes := [200 \<mapsto> 3],
       total_response_time := Finite (1351079888211149 / 4503599627370496),
       avg_response_time := Finite (7205759403792795 / 72057594037927936),
       min_response_time := Finite (3602879701896397 / 36028797018963968),
       max_response_time := Finite (3602879701896397 / 36028797018963968) \<rparr>"
  unfolding two_tenths
  by (simp add: add_response_def ScanStats_init_def Let_def tenth_val py_max_def py_min_def
        count_up_def round_three_tenths round_avg round_3 numeral_3_eq_3)

lemma seven_tenths_val: "seven_tenths = Finite (3152519739159347 / 4503599627370496)"
  unfolding seven_tenths_def
  by (rule round64_pos[where e = "-1" and p = "-53" and m = 6305039478318694])
     (simp_all add: float_eval)

lemma round_seven_tenths:
  "round64 (3152519739159347 / 4503599627370496) = Finite (3152519739159347 / 4503599627370496)"
  by (rule round64_pos[where e = "-1" and p = "-53" and m = 6305039478318694])
     (simp_all add: float_eval)

lemma round_fourteen_tenths:
  "round64 (3152519739159347 / 2251799813685248) = Finite (3152519739159347 / 2251799813685248)"
  by (rule round64_pos[where e = 0 and p = "-52" and m = 6305039478318694])
     (simp_all add: float_eval)

lemma round_twentyone_tenths:
  "round64 (9457559217478041 / 4503599627370496) = Finite (1182194902184755 / 562949953421312)"
  by (rule round64_pos[where e = 1 and p = "-51" and m = 4728779608739020])
     (simp_all add: float_eval)

lemma round_avg_seven_tenths:
  "round64 (1182194902184755 / 1688849860263936) = Finite (6305039478318693 / 9007199254740992)"
  by (rule round64_pos[where e = "-1" and p = "-53" and m = 6305039478318693])
     (simp_all add: float_eval)

text \<open>The statistics after one, two and three responses of seven tenths of a second.\<close>

lemma one_seven_tenths:
  "add_response 200 seven_tenths ScanStats_init =
     ScanStats_init \<lparr> total_requests := 1, response_codes := [200 \<mapsto> 1],
       total_response_time := Finite (3152519739159347 / 4503599627370496),
       avg_response_time := Finite (3152519739159347 / 4503599627370496),
       min_response_time := Finite (3152519739159347 / 4503599627370496),
       max_response_time := Finite (3152519739159347 / 4503599627370496) \<rparr>"
  by (simp add: add_response_def ScanStats_init_def Let_def seven_tenths_val py_max_def py_min_def
        count_up_def round_seven_tenths round_1)

lemma two_seven_tenths:
  "add_response 200 seven_tenths (add_response 200 seven_tenths ScanStats_init) =
     ScanStats_init \<lparr> total_requests := 2, response_codes := [200 \<mapsto> 2],
       total_response_time := Finite (3152519739159347 / 2251799813685248),
       avg_response_time := Finite (3152519739159347 / 4503599627370496),
       min_response_time := Finite (3152519739159347 / 4503599627370496),
       max_response_time := Finite (3152519739159347 / 4503599627370496) \<rparr>"
  unfolding one_seven_tenths
  by (simp add: add_response_def ScanStats_init_def Let_def seven_tenths_val py_max_def py_min_def
        count_up_def round_fourteen_tenths round_seven_tenths round_2 numeral_2_eq_2)

lemma three_seven_tenths:
  "add_response 200 seven_tenths (add_response 200 seven_tenths (add_response 200 seven_tenths ScanStats_init)) =
     ScanStats_init \<lparr> total_requests := 3, response_codes := [200 \<mapsto> 3],
       total_response_time := Finite (1182194902184755 / 562949953421312),
       avg_response_time := Finite (6305039478318693 / 9007199254740992),
       min_response_time := Finite (3152519739159347 / 4503599627370496),
       max_response_time := Finite (3152519739159347 / 4503599627370496) \<rparr>"
  unfolding two_seven_tenths
  by (simp add: add_response_def ScanStats_init_def Let_def seven_tenths_val py_max_def py_min_def
        count_up_def round_twentyone_tenths round_avg_seven_tenths round_3 numeral_3_eq_3)

subsection \<open>Evaluating URLs\<close>

lemmas url_defs = normalize_url_def urlparse_def urlsplit_def split_scheme_def splitnetloc_def
  split_first_def urlunparse_def urlunsplit_def netloc_error_def is_ascii_def uses_params_def
  uses_netloc_def is_netloc_delim_def is_scheme_char_def is_ascii_alpha_def is_digit_def
  py_lower_def py_lower_char_def is_c0_control_or_space_def is_unsafe_url_byte_def Let_def

lemma reset_scan_visited: "visited_urls (reset_scan E sid s) = visited_urls s"
  by (simp add: reset_scan_def)


subsection \<open>A whole scan\<close>

lemma crawl_view_visit: "crawl_view a = crawl_view b \<Longrightarrow> visit_view a = visit_view b"
  by (simp add: crawl_view_def visit_view_def)

lemma scan_url_too_deep: "max_depth (config E) < depth \<Longrightarrow> scan_url E u depth s = (s, None)"
  by (subst scan_url.simps) simp

lemma scan_url_full:
  "max_pages (config E) \<le> int (fcard (visited_urls s)) \<Longrightarrow> scan_url E u depth s = (s, None)"
  by (subst scan_url.simps) simp

lemma scan_url_seen:
  "normalize_url (lib E) u = Inr b \<Longrightarrow> b |\<in>| visited_urls s \<Longrightarrow> scan_url E u depth s = (s, None)"
  by (subst scan_url.simps) simp

text \<open>The state in which \<open>start_scan\<close> begins to crawl.\<close>

lemma start_state_view:
  "crawl_view (check_broken_access_control E u (reset_scan E sid s)) = (visited_urls s, [], [], 0)"
  unfolding check_broken_access_control_view
  by (simp add: crawl_view_def reset_scan_def ScanStats_init_def)

lemma start_scan_crawl:
  "\<exists>new. fset (visited_urls (fst (start_scan E u sid s))) = fset (visited_urls s) \<union> set new \<and>
     scanned_urls (stats (fst (start_scan E u sid s))) = new \<and>
     total_urls_scanned (stats (fst (start_scan E u sid s))) = length new \<and>
     distinct new \<and> set new \<inter> fset (visited_urls s) = {} \<and>
     int (fcard (visited_urls (fst (start_scan E u sid s))))
       \<le> max (int (fcard (visited_urls s))) (max_pages (config E)) \<and>
     list_all (link_ok E) (scanned_links (fst (start_scan E u sid s))) \<and>
     (\<forall>b. normalize_url (lib E) u = Inr b \<longrightarrow>
        list_all (\<lambda>v. get_base_url (lib E) v = get_base_url (lib E) b) new)"
proof -
  define s0 where "s0 = check_broken_access_control E u (reset_scan E sid s)"
  have v0: "visited_urls s0 = visited_urls s" "scanned_links s0 = []"
    "scanned_urls (stats s0) = []" "total_urls_scanned (stats s0) = 0"
    using start_state_view[of E u sid s] by (simp_all add: s0_def crawl_view_def)
  from crawl_main(1)[of E s0 u 0] obtain new ls where
    c: "crawled E s0 (fst (scan_url E u 0 s0)) new ls" and l: "list_all (link_ok E) ls"
    and b: "\<forall>b. normalize_url (lib E) u = Inr b \<longrightarrow>
              list_all (\<lambda>v. get_base_url (lib E) v = get_base_url (lib E) b) new"
    by blast
  have st: "start_scan E u sid s = scan_url E u 0 s0" by (simp add: start_scan_def s0_def)
  show ?thesis
    unfolding st using c l b by (intro exI[of _ new]) (simp add: crawled_def v0)
qed

lemma start_scan_page_bound:
  assumes "0 \<le> max_pages (config E)"
  shows "int (total_urls_scanned (stats (fst (start_scan E u sid s)))) \<le> max_pages (config E)"
proof -
  define s' where "s' = fst (start_scan E u sid s)"
  from start_scan_crawl[of E u sid s] obtain new where
    v: "fset (visited_urls s') = fset (visited_urls s) \<union> set new"
    and t: "total_urls_scanned (stats s') = length new"
    and d: "distinct new" and dj: "set new \<inter> fset (visited_urls s) = {}"
    and bd: "int (fcard (visited_urls s')) \<le> max (int (fcard (visited_urls s))) (max_pages (config E))"
    unfolding s'_def by blast
  have "card (fset (visited_urls s) \<union> set new) = card (fset (visited_urls s)) + card (set new)"
    using dj by (intro card_Un_disjoint) auto
  then have "fcard (visited_urls s') = fcard (visited_urls s) + length new"
    using v d by (simp add: fcard.rep_eq distinct_card)
  then show ?thesis using bd t assms unfolding s'_def by linarith
qed

text \<open>At the maximal depth the links of a page are recorded, and none of them is visited.\<close>

lemma links_at_max_depth:
  "max_depth (config E) \<le> depth \<Longrightarrow>
   visit_view (fst (scan_links_loop E url lks depth s)) = visit_view s"
proof (induction lks arbitrary: s)
  case Nil
  then show ?case by simp
next
  case (Cons link rest)
  define s1 where "s1 = s \<lparr> scanned_links := scanned_links s @ [\<lparr> source_url = url, target_url = link \<rparr>] \<rparr>"
  have deep: "scan_url E link (depth + 1) s1 = (s1, None)"
    using Cons.prems by (intro scan_url_too_deep) simp
  have v1: "visit_view s1 = visit_view s" by (simp add: visit_view_def s1_def)
  have ih: "visit_view (fst (scan_links_loop E url rest depth s1)) = visit_view s"
    using Cons.IH[OF Cons.prems, of s1] v1 by simp
  have "scan_links_loop E url (link # rest) depth s =
          (case is_same_domain (lib E) link url of
             Inl e \<Rightarrow> (s1, Some e)
           | Inr same \<Rightarrow> scan_links_loop E url rest depth s1)"
    by (simp add: Let_def s1_def[symmetric] deep split: sum.splits)
  then show ?case using ih v1 by (simp split: sum.splits)
qed

text \<open>A seed at the maximal depth: the seed is visited, and nothing else.\<close>

lemma seed_at_max_depth:
  assumes room: "int (fcard (visited_urls s)) < max_pages (config E)"
    and n: "normalize_url (lib E) u = Inr b" and nv: "b |\<notin>| visited_urls s"
  shows "visit_view (fst (scan_url E u (max_depth (config E)) s)) =
           (finsert b (visited_urls s), scanned_urls (stats s) @ [b], total_urls_scanned (stats s) + 1)"
proof -
  define s1 where "s1 = s \<lparr> visited_urls := finsert b (visited_urls s), stats := add_url b (stats s) \<rparr>"
  have v1: "visit_view s1 =
      (finsert b (visited_urls s), scanned_urls (stats s) @ [b], total_urls_scanned (stats s) + 1)"
    by (simp add: s1_def visit_view_def add_url_def)
  obtain s4 st where fp: "fetch_page E b s1 = (s4, st)" by (cases "fetch_page E b s1")
  have v4: "visit_view s4 = visit_view s1" using fetch_page_view[OF fp] by (rule crawl_view_visit)
  have unf: "scan_url E u (max_depth (config E)) s =
      (case st of
         Stop exc \<Rightarrow> except_request_error (s4, exc)
       | Page r lks \<Rightarrow>
           (case scan_links_loop E b lks (max_depth (config E)) s4 of
              (s5, Some e) \<Rightarrow> except_request_error (s5, Some e)
            | (s5, None) \<Rightarrow> except_request_error (scan_page_after_links E b r s5)))"
    using room n nv fp by (subst scan_url.simps) (simp add: s1_def)
  have ex: "visit_view (fst (except_request_error (t, exc))) = visit_view t" for t exc
  proof -
    obtain t' r where e: "except_request_error (t, exc) = (t', r)"
      by (cases "except_request_error (t, exc)")
    from except_request_error_view[OF e] have "crawl_view t' = crawl_view t" by simp
    then have "visit_view t' = visit_view t" by (rule crawl_view_visit)
    then show ?thesis by (simp add: e)
  qed
  show ?thesis
  proof (cases st)
    case (Stop exc)
    then show ?thesis using unf ex[of s4 exc] v4 v1 by simp
  next
    case (Page r lks)
    obtain s5 y where sl: "scan_links_loop E b lks (max_depth (config E)) s4 = (s5, y)"
      by (cases "scan_links_loop E b lks (max_depth (config E)) s4")
    have v5: "visit_view s5 = visit_view s4"
      using links_at_max_depth[of E "max_depth (config E)" b lks s4] sl by simp
    show ?thesis
    proof (cases y)
      case None
      obtain s6 w where al: "scan_page_after_links E b r s5 = (s6, w)"
        by (cases "scan_page_after_links E b r s5")
      have v6: "visit_view s6 = visit_view s5"
        using scan_page_after_links_view[OF al] by (rule crawl_view_visit)
      show ?thesis using unf Page sl None al ex[of s6 w] v6 v5 v4 v1 by simp
    next
      case (Some e)
      show ?thesis using unf Page sl Some ex[of s5 "Some e"] v5 v4 v1 by simp
    qed
  qed
qed

lemma start_scan_seed:
  assumes d: "max_depth (config E) = 0"
    and room: "int (fcard (visited_urls s)) < max_pages (config E)"
    and n: "normalize_url (lib E) u = Inr b" and nv: "b |\<notin>| visited_urls s"
  shows "visit_view (fst (start_scan E u sid s)) = (finsert b (visited_urls s), [b], 1)"
proof -
  define s0 where "s0 = check_broken_access_control E u (reset_scan E sid s)"
  have v0: "visited_urls s0 = visited_urls s" "scanned_urls (stats s0) = []"
    "total_urls_scanned (stats s0) = 0"
    using start_state_view[of E u sid s] by (simp_all add: s0_def crawl_view_def)
  have "visit_view (fst (scan_url E u (max_depth (config E)) s0)) =
      (finsert b (visited_urls s0), scanned_urls (stats s0) @ [b], total_urls_scanned (stats s0) + 1)"
    using room n nv by (intro seed_at_max_depth) (simp_all add: v0)
  then show ?thesis by (simp add: start_scan_def s0_def[symmetric] v0 d)
qed

text \<open>A second scan of a URL that an earlier scan of the same scanner has visited.\<close>

lemma start_scan_again:
  assumes n: "normalize_url (lib E) u = Inr b" and seen: "b |\<in>| visited_urls s"
  shows "visit_view (fst (start_scan E u sid s)) = (visited_urls s, [], 0)"
proof -
  define s0 where "s0 = check_broken_access_control E u (reset_scan E sid s)"
  have v0: "visited_urls s0 = visited_urls s" "scanned_urls (stats s0) = []"
    "total_urls_scanned (stats s0) = 0"
    using start_state_view[of E u sid s] by (simp_all add: s0_def crawl_view_def)
  have "scan_url E u 0 s0 = (s0, None)" using n seen by (intro scan_url_seen) (simp_all add: v0)
  then show ?thesis by (simp add: start_scan_def s0_def[symmetric] v0 visit_view_def)
qed

subsection \<open>The example sites\<close>

lemma example_env_simps:
  "config (example_env c net tags) = c"
  "http (example_env c net tags) = net"
  "soup_link_tags (example_env c net tags) = tags"
  "HAS_OWASP_SCANNERS (example_env c net tags) = False"
  "urljoin (example_env c net tags) = (\<lambda>base u. Inr u)"
  "extract_forms (example_env c net tags) = (\<lambda>html u. Inr [])"
  by (simp_all add: example_env_def)

lemma links_only_config_simps:
  "max_depth links_only_config = 3" "max_pages links_only_config = 100"
  "max_retries links_only_config = 3" "rate_limit links_only_config = 0"
  "scan_forms links_only_config = False" "scan_links links_only_config = True"
  "scan_headers links_only_config = False" "scan_xss links_only_config = False"
  by (simp_all add: links_only_config_def default_config_def)

lemma normalize_home: "normalize_url L ''http://a.com/'' = Inr ''http://a.com/''"
  by (simp add: url_defs)

lemma down_env_simps:
  "config down_env = links_only_config" "http down_env = site_down"
  "HAS_OWASP_SCANNERS down_env = False"
  by (simp_all add: down_env_def example_env_simps)

lemma upto_0_2: "[0..2::int] = [0, 1, 2]"
  by (simp add: upto_rec1)

lemma make_request_down:
  "make_request down_env u s =
     (s \<lparr> events := events s @ [Sent (page_request u), SleepScanDelay, Sent (page_request u),
                                 SleepScanDelay, Sent (page_request u)] \<rparr>, Inr None)"
  by (simp add: make_request_def down_env_simps links_only_config_simps upto_0_2 send_def
        site_down_def)

lemma fetch_page_down:
  "fetch_page down_env u s =
     (s \<lparr> events := events s @ [Sent (page_request u), SleepScanDelay, Sent (page_request u),
                                 SleepScanDelay, Sent (page_request u)] \<rparr>, Stop None)"
  by (simp add: fetch_page_def make_request_down)

lemma start_scan_down:
  "start_scan down_env ''http://a.com/'' None Scanner_init =
     (Scanner_init \<lparr> visited_urls := {|''http://a.com/''|},
                     stats := add_url ''http://a.com/'' ScanStats_init,
                     scan_id := Some (fresh_uuid down_env),
                     events := [Sent (page_request ''http://a.com/''), SleepScanDelay,
                                Sent (page_request ''http://a.com/''), SleepScanDelay,
                                Sent (page_request ''http://a.com/'')] \<rparr>, None)"
proof -
  have r: "check_broken_access_control down_env ''http://a.com/'' (reset_scan down_env None Scanner_init)
           = Scanner_init \<lparr> scan_id := Some (fresh_uuid down_env) \<rparr>"
    by (simp add: check_broken_access_control_def down_env_simps reset_scan_def Scanner_init_def)
  have "scan_url down_env ''http://a.com/'' 0 (Scanner_init \<lparr> scan_id := Some (fresh_uuid down_env) \<rparr>) =
     (Scanner_init \<lparr> visited_urls := {|''http://a.com/''|},
                     stats := add_url ''http://a.com/'' ScanStats_init,
                     scan_id := Some (fresh_uuid down_env),
                     events := [Sent (page_request ''http://a.com/''), SleepScanDelay,
                                Sent (page_request ''http://a.com/''), SleepScanDelay,
                                Sent (page_request ''http://a.com/'')] \<rparr>, None)"
    by (subst scan_url.simps)
       (simp add: down_env_simps links_only_config_simps normalize_home fetch_page_down
          except_request_error_def Scanner_init_def fcard_fempty)
  then show ?thesis by (simp add: start_scan_def r)
qed


subsection \<open>The security-header check\<close>












section \<open>The threaded crawler visits a URL twice\<close>

text \<open>
  C1 (at-most-once processing of a URL, whatever the number of workers).  In
  \<open>WebCrawler\<close> the two membership tests and \<open>visited.add\<close> are separate statements with no
  lock.  On the site \<open>race_links\<close>, with two workers and the schedule \<open>race_schedule\<close>, both
  workers pass both tests for \<open>http://a.com/x\<close> before either adds it, and the page is
  requested twice.
\<close>

theorem web_crawler_fetches_twice:
  "fetched (run_schedule race_links race_schedule (WebCrawler_init ''http://a.com/'' 2))
     = [''http://a.com/'', ''http://a.com/x'', ''http://a.com/x'']"
  by (simp add: run_schedule_def race_schedule_def race_links_def WebCrawler_init_def step_def)

section \<open>Vulnerable components\<close>

text \<open>
  C6 (jquery 1.9 is flagged, jquery 99.0 is not).  Version 1.9 is in the list and is
  flagged.  Version 99.0 is not in the list; the comparison loop then returns the
  library's record as soon as the version is not older than a listed one, which 99.0 is
  not already for the first listed version 1.0: version 99.0 is flagged too.
\<close>

theorem jquery_1_9_and_99_0_flagged:
  "check_library_vulnerability VULNERABLE_LIBRARIES ''jquery'' ''1.9'' = Some jquery_info \<and>
   check_library_vulnerability VULNERABLE_LIBRARIES ''jquery'' ''99.0'' = Some jquery_info"
  by code_simp

section \<open>Normalizing a URL\<close>

text \<open>
  C8 (normalization is idempotent; \<open>/x/\<close> and \<open>/x\<close> normalize to the same URL).
  \<open>normalize_url\<close> removes one trailing slash of the path.  A path that ends in two
  slashes keeps one, which a second normalization removes: on \<open>http://a.com/x//\<close> the
  function is not idempotent.  The URLs \<open>http://a.com/x/\<close> and \<open>http://a.com/x\<close> do
  normalize to the same URL.
\<close>

theorem normalize_url_not_idempotent:
  "normalize_url L ''http://a.com/x//'' = Inr ''http://a.com/x/'' \<and>
   normalize_url L ''http://a.com/x/'' = Inr ''http://a.com/x'' \<and>
   normalize_url L ''http://a.com/x'' = Inr ''http://a.com/x''"
  by (simp add: url_defs)

section \<open>Response-time statistics\<close>

text \<open>
  C10 (after \<open>n \<ge> 1\<close> responses the average is the total divided by the count and lies
  between the minimum and the maximum; without responses the summary has the minimum
  \<open>inf\<close> and the average and the maximum 0).  The total is a sum of floats and the
  average a quotient of floats, each rounded.  With three responses of a tenth of a
  second each, the sum of the three floats is rounded up, and so is its third: the
  average is greater than the maximum.  With three responses of seven tenths of a second
  each, the sum is rounded down, and so is its third: the average is less than the
  minimum.
\<close>

theorem average_outside_min_max:
  "float_lt (max_response_time (record_responses [(200, tenth), (200, tenth), (200, tenth)] ScanStats_init))
            (avg_response_time (record_responses [(200, tenth), (200, tenth), (200, tenth)] ScanStats_init)) \<and>
   \<not> float_le (avg_response_time (record_responses [(200, tenth), (200, tenth), (200, tenth)] ScanStats_init))
               (max_response_time (record_responses [(200, tenth), (200, tenth), (200, tenth)] ScanStats_init)) \<and>
   float_lt (avg_response_time
               (record_responses [(200, seven_tenths), (200, seven_tenths), (200, seven_tenths)] ScanStats_init))
            (min_response_time
               (record_responses [(200, seven_tenths), (200, seven_tenths), (200, seven_tenths)] ScanStats_init)) \<and>
   \<not> float_le (min_response_time
                 (record_responses [(200, seven_tenths), (200, seven_tenths), (200, seven_tenths)] ScanStats_init))
               (avg_response_time
                 (record_responses [(200, seven_tenths), (200, seven_tenths), (200, seven_tenths)] ScanStats_init))"
  by (simp add: record_responses_def three_tenths three_seven_tenths float_le_def)

text \<open>
  C10, as the code has it.  After \<open>n \<ge> 1\<close> responses with finite times, the count is
  \<open>n\<close>; the total is the float sum of the times, added one by one from 0 in the order of
  the calls; the average is the float quotient of this sum and \<open>n\<close>; the minimum is one of
  the times, the maximum is one of the times or the initial 0, the minimum is at most the
  maximum and every time lies between them.  The average lies between the average that
  \<open>n\<close> responses of the minimum time give and the average that \<open>n\<close> responses of the
  maximum time give, both computed with the same float operations (either of them, and
  the average, can be \<open>inf\<close> when the sum overflows).  Without responses the summary is as
  claimed.
\<close>

theorem response_time_metrics:
  "(rs \<noteq> [] \<and> list_all (\<lambda>r. finite_float (snd r)) rs \<longrightarrow>
     total_requests (record_responses rs ScanStats_init) = length rs \<and>
     total_response_time (record_responses rs ScanStats_init) =
       foldl float_add (Finite 0) (map snd rs) \<and>
     avg_response_time (record_responses rs ScanStats_init) =
       float_div_int (foldl float_add (Finite 0) (map snd rs)) (length rs) \<and>
     min_response_time (record_responses rs ScanStats_init) \<in> set (map snd rs) \<and>
     max_response_time (record_responses rs ScanStats_init) \<in> set (Finite 0 # map snd rs) \<and>
     float_le (min_response_time (record_responses rs ScanStats_init))
              (max_response_time (record_responses rs ScanStats_init)) \<and>
     list_all (\<lambda>r. float_le (min_response_time (record_responses rs ScanStats_init)) (snd r) \<and>
                    float_le (snd r) (max_response_time (record_responses rs ScanStats_init))) rs \<and>
     float_le (float_div_int (foldl float_add (Finite 0)
                 (replicate (length rs) (min_response_time (record_responses rs ScanStats_init))))
               (length rs))
              (avg_response_time (record_responses rs ScanStats_init)) \<and>
     float_le (avg_response_time (record_responses rs ScanStats_init))
              (float_div_int (foldl float_add (Finite 0)
                 (replicate (length rs) (max_response_time (record_responses rs ScanStats_init))))
               (length rs))) \<and>
   sum_performance (get_summary ScanStats_init) =
     \<lparr> perf_avg_response_time = Finite 0, perf_min_response_time = PInf,
       perf_max_response_time = Finite 0 \<rparr>"
proof (rule conjI)
  show "rs \<noteq> [] \<and> list_all (\<lambda>r. finite_float (snd r)) rs \<longrightarrow>
     total_requests (record_responses rs ScanStats_init) = length rs \<and>
     total_response_time (record_responses rs ScanStats_init) =
       foldl float_add (Finite 0) (map snd rs) \<and>
     avg_response_time (record_responses rs ScanStats_init) =
       float_div_int (foldl float_add (Finite 0) (map snd rs)) (length rs) \<and>
     min_response_time (record_responses rs ScanStats_init) \<in> set (map snd rs) \<and>
     max_response_time (record_responses rs ScanStats_init) \<in> set (Finite 0 # map snd rs) \<and>
     float_le (min_response_time (record_responses rs ScanStats_init))
              (max_response_time (record_responses rs ScanStats_init)) \<and>
     list_all (\<lambda>r. float_le (min_response_time (record_responses rs ScanStats_init)) (snd r) \<and>
                    float_le (snd r) (max_response_time (record_responses rs ScanStats_init))) rs \<and>
     float_le (float_div_int (foldl float_add (Finite 0)
                 (replicate (length rs) (min_response_time (record_responses rs ScanStats_init))))
               (length rs))
              (avg_response_time (record_responses rs ScanStats_init)) \<and>
     float_le (avg_response_time (record_responses rs ScanStats_init))
              (float_div_int (foldl float_add (Finite 0)
                 (replicate (length rs) (max_response_time (record_responses rs ScanStats_init))))
               (length rs))"
  proof (rule impI)
    assume a: "rs \<noteq> [] \<and> list_all (\<lambda>r. finite_float (snd r)) rs"
    then have ne: "rs \<noteq> []" and fin: "list_all (\<lambda>r. finite_float (snd r)) rs" by simp_all
    let ?R = "record_responses rs ScanStats_init"
    have i1: "min_response_time ScanStats_init \<noteq> NaN" "max_response_time ScanStats_init \<noteq> NaN"
      by (simp_all add: ScanStats_init_def)
    note b = record_responses_bounds[OF fin i1]
    obtain r rs' where rs: "rs = r # rs'" using ne by (cases rs) auto
    from b have "float_le (min_response_time ?R) (snd r)" "float_le (snd r) (max_response_time ?R)"
      by (simp_all add: rs)
    then have mm: "float_le (min_response_time ?R) (max_response_time ?R)"
      using float_le_trans by blast
    have cnt: "total_requests ?R = length rs"
      by (simp add: record_responses_count ScanStats_init_def)
    have tot: "total_response_time ?R = foldl float_add (Finite 0) (map snd rs)"
      by (simp add: record_responses_total ScanStats_init_def)
    have avg: "avg_response_time ?R = float_div_int (foldl float_add (Finite 0) (map snd rs)) (length rs)"
      using record_responses_avg[OF ne, of ScanStats_init] by (simp only: cnt tot)
    have mn: "min_response_time ?R \<in> set (map snd rs)"
      by (rule record_responses_min_first[OF ne fin])
    have mx: "max_response_time ?R \<in> set (Finite 0 # map snd rs)"
      using record_responses_max[of rs ScanStats_init] by (simp add: ScanStats_init_def)
    have all: "list_all (\<lambda>r. float_le (min_response_time ?R) (snd r) \<and>
                    float_le (snd r) (max_response_time ?R)) rs"
      using b by simp
    note ab = record_responses_avg_bounds[OF ne fin]
    show "total_requests ?R = length rs \<and>
     total_response_time ?R = foldl float_add (Finite 0) (map snd rs) \<and>
     avg_response_time ?R = float_div_int (foldl float_add (Finite 0) (map snd rs)) (length rs) \<and>
     min_response_time ?R \<in> set (map snd rs) \<and>
     max_response_time ?R \<in> set (Finite 0 # map snd rs) \<and>
     float_le (min_response_time ?R) (max_response_time ?R) \<and>
     list_all (\<lambda>r. float_le (min_response_time ?R) (snd r) \<and>
                    float_le (snd r) (max_response_time ?R)) rs \<and>
     float_le (float_div_int (foldl float_add (Finite 0)
                 (replicate (length rs) (min_response_time ?R))) (length rs))
              (avg_response_time ?R) \<and>
     float_le (avg_response_time ?R)
              (float_div_int (foldl float_add (Finite 0)
                 (replicate (length rs) (max_response_time ?R))) (length rs))"
      unfolding avg using cnt tot mn mx mm all ab by (intro conjI) simp_all
  qed
next
  show "sum_performance (get_summary ScanStats_init) =
     \<lparr> perf_avg_response_time = Finite 0, perf_min_response_time = PInf,
       perf_max_response_time = Finite 0 \<rparr>"
    by (rule summary_without_responses)
qed

theorem response_time_metrics_witness:
  "total_requests (record_responses [(200, Finite 1), (404, Finite 3)] ScanStats_init) = 2 \<and>
   float_le (min_response_time (record_responses [(200, Finite 1), (404, Finite 3)] ScanStats_init))
            (max_response_time (record_responses [(200, Finite 1), (404, Finite 3)] ScanStats_init)) \<and>
   min_response_time (record_responses [(200, Finite 1), (404, Finite 3)] ScanStats_init)
     \<in> {Finite 1, Finite 3}"
  using response_time_metrics[of "[(200, Finite 1), (404, Finite 3)]"]
  by (simp add: finite_float_def)


section \<open>Depth and page bounds\<close>

text \<open>
  C2 (with \<open>max_depth = 0\<close> exactly the seed is visited; with \<open>max_pages = N\<close> at most \<open>N\<close>
  URLs are scanned).  With \<open>max_depth = 0\<close> and \<open>max_pages = 0\<close> the second guard of
  \<open>_scan_url\<close> returns before the seed is visited: no URL is visited.
\<close>

theorem no_pages_no_visit:
  "max_depth (config no_pages_env) = 0 \<and>
   visited_urls (fst (start_scan no_pages_env ''http://a.com/'' None Scanner_init)) = {||} \<and>
   total_urls_scanned (stats (fst (start_scan no_pages_env ''http://a.com/'' None Scanner_init))) = 0"
proof -
  define s0 where
    "s0 = check_broken_access_control no_pages_env ''http://a.com/'' (reset_scan no_pages_env None Scanner_init)"
  have v0: "visited_urls s0 = {||}" "total_urls_scanned (stats s0) = 0"
    using start_state_view[of no_pages_env "''http://a.com/''" None Scanner_init]
    by (simp_all add: s0_def crawl_view_def Scanner_init_def)
  have cfg: "max_depth (config no_pages_env) = 0" "max_pages (config no_pages_env) = 0"
    by (simp_all add: no_pages_env_def example_env_simps)
  have "scan_url no_pages_env ''http://a.com/'' 0 s0 = (s0, None)"
    by (rule scan_url_full) (simp add: cfg v0 fcard_fempty)
  then show ?thesis by (simp add: start_scan_def s0_def[symmetric] v0 cfg)
qed

text \<open>
  C2, as the code has it.  With \<open>max_depth = 0\<close>, if the visited set of the scanner has
  fewer than \<open>max_pages\<close> elements and the seed normalizes to a URL that is not in it,
  then the scan visits exactly that URL.  With \<open>max_pages = N \<ge> 0\<close> a scan counts at
  most \<open>N\<close> scanned URLs.
\<close>

theorem depth_and_page_bounds:
  "(max_depth (config E) = 0 \<and> int (fcard (visited_urls s)) < max_pages (config E) \<and>
    normalize_url (lib E) u = Inr b \<and> b |\<notin>| visited_urls s \<longrightarrow>
      visited_urls (fst (start_scan E u sid s)) = finsert b (visited_urls s) \<and>
      scanned_urls (stats (fst (start_scan E u sid s))) = [b] \<and>
      total_urls_scanned (stats (fst (start_scan E u sid s))) = 1) \<and>
   (0 \<le> max_pages (config E) \<longrightarrow>
      int (total_urls_scanned (stats (fst (start_scan E u sid s)))) \<le> max_pages (config E))"
  using start_scan_seed[of E s u b sid] start_scan_page_bound[of E u sid s]
  by (simp add: visit_view_def)

theorem depth_and_page_bounds_witness:
  "visited_urls (fst (start_scan seed_only_env ''http://a.com/'' None Scanner_init)) = {|''http://a.com/''|} \<and>
   scanned_urls (stats (fst (start_scan seed_only_env ''http://a.com/'' None Scanner_init))) = [''http://a.com/''] \<and>
   total_urls_scanned (stats (fst (start_scan seed_only_env ''http://a.com/'' None Scanner_init))) = 1"
  using depth_and_page_bounds[where E = seed_only_env and s = Scanner_init and u = "''http://a.com/''"
          and b = "''http://a.com/''" and sid = None]
  by (simp add: seed_only_env_def example_env_simps links_only_config_simps normalize_home
        Scanner_init_def fcard_fempty)

section \<open>Starting a second scan\<close>

text \<open>
  C9 (\<open>start_scan\<close> resets all per-scan state, the visited set included).  \<open>start_scan\<close>
  assigns \<open>stats\<close>, \<open>vulnerabilities\<close>, \<open>scanned_links\<close> and \<open>scanned_forms\<close>, and leaves
  \<open>visited_urls\<close> as it is.  A first scan of \<open>http://a.com/\<close> visits the page; a second
  scan of the same URL with the same scanner finds it in the visited set and scans
  nothing.
\<close>

theorem start_scan_keeps_visited:
  "visited_urls (reset_scan E sid s) = visited_urls s \<and>
   visited_urls (fst (start_scan seed_only_env ''http://a.com/'' None Scanner_init)) = {|''http://a.com/''|} \<and>
   scanned_urls (stats (fst (start_scan seed_only_env ''http://a.com/'' None
       (fst (start_scan seed_only_env ''http://a.com/'' None Scanner_init))))) = [] \<and>
   total_urls_scanned (stats (fst (start_scan seed_only_env ''http://a.com/'' None
       (fst (start_scan seed_only_env ''http://a.com/'' None Scanner_init))))) = 0"
proof -
  define s1 where "s1 = fst (start_scan seed_only_env ''http://a.com/'' None Scanner_init)"
  have "visit_view s1 = (finsert ''http://a.com/'' (visited_urls Scanner_init), [''http://a.com/''], 1)"
    unfolding s1_def
    by (rule start_scan_seed)
       (simp_all add: seed_only_env_def example_env_simps links_only_config_simps normalize_home
          Scanner_init_def fcard_fempty)
  then have v1: "visited_urls s1 = {|''http://a.com/''|}"
    by (simp add: visit_view_def Scanner_init_def)
  have "visit_view (fst (start_scan seed_only_env ''http://a.com/'' None s1)) = (visited_urls s1, [], 0)"
    by (rule start_scan_again[where b = "''http://a.com/''"]) (simp_all add: normalize_home v1)
  then show ?thesis
    using v1 by (simp add: visit_view_def s1_def[symmetric] reset_scan_visited)
qed

section \<open>A fetch that fails\<close>

text \<open>
  C7 (a failing fetch is retried \<open>max_retries\<close> times with a pause between attempts, then
  an error counter is incremented and the scan goes on).  For a host that refuses every
  connection, with \<open>max_retries = 3\<close>: the request is sent three times with two pauses,
  \<open>_make_request\<close> returns \<open>None\<close>, and \<open>_scan_url\<close> returns without calling
  \<open>add_error\<close>.  The scan ends normally with no error counted.
\<close>

theorem failed_fetch_counts_no_error:
  "events (fst (start_scan down_env ''http://a.com/'' None Scanner_init)) =
     [Sent (page_request ''http://a.com/''), SleepScanDelay,
      Sent (page_request ''http://a.com/''), SleepScanDelay,
      Sent (page_request ''http://a.com/'')] \<and>
   scanned_urls (stats (fst (start_scan down_env ''http://a.com/'' None Scanner_init))) = [''http://a.com/''] \<and>
   total_errors (stats (fst (start_scan down_env ''http://a.com/'' None Scanner_init))) = 0 \<and>
   errors_by_type (stats (fst (start_scan down_env ''http://a.com/'' None Scanner_init))) = Map.empty \<and>
   snd (start_scan down_env ''http://a.com/'' None Scanner_init) = None"
  by (simp add: start_scan_down add_url_def ScanStats_init_def)


section \<open>Missing security headers\<close>




end
